theory Spec2Isabelle
  imports Complex_Main "HOL-Library.Word"
begin

text \<open>
  A model of \<^verbatim>\<open>src/landing/script.js\<close>: the client script of the landing
  page (mobile menu, login form, notifications, scroll listeners and their
  timers) and the provisioning shell script that follows it in the same
  file. The elements that the script looks up when it loads (the hamburger,
  the menu, the header, the login form and its field) are taken to exist,
  and \<^verbatim>\<open>localStorage.setItem\<close> is taken to succeed.
\<close>

section \<open>JavaScript strings\<close>

text \<open>
  A JavaScript string is a sequence of 16-bit code units. The literals of
  \<^verbatim>\<open>src/landing/script.js\<close> that the model needs are ASCII, so they are
  written as HOL strings and widened by \<open>js\<close>.
\<close>

type_synonym jsstring = "16 word list"

definition js :: "string \<Rightarrow> jsstring" where
  "js s = map (\<lambda>c. of_nat (of_char c)) s"

subsection \<open>encodeURIComponent\<close>

text \<open>
  The built-in \<^verbatim>\<open>encodeURIComponent\<close> (ECMAScript, abstract operation Encode):
  a code unit of the unreserved set is copied; any other code point is
  written as the percent-escaped octets of its UTF-8 encoding; a surrogate
  code unit that is not part of a lead/trail pair throws \<^verbatim>\<open>URIError\<close>.
\<close>

datatype js_error = URIError

definition is_alnum :: "16 word \<Rightarrow> bool" where
  "is_alnum c \<longleftrightarrow> (0x30 \<le> c \<and> c \<le> 0x39) \<or> (0x41 \<le> c \<and> c \<le> 0x5A) \<or> (0x61 \<le> c \<and> c \<le> 0x7A)"

definition uri_unreserved :: "16 word \<Rightarrow> bool" where
  "uri_unreserved c \<longleftrightarrow> is_alnum c \<or> c \<in> set (js ''-_.!~*'' @ [0x27] @ js ''()'')"

definition is_lead_surrogate :: "16 word \<Rightarrow> bool" where
  "is_lead_surrogate c \<longleftrightarrow> 0xD800 \<le> c \<and> c \<le> 0xDBFF"

definition is_trail_surrogate :: "16 word \<Rightarrow> bool" where
  "is_trail_surrogate c \<longleftrightarrow> 0xDC00 \<le> c \<and> c \<le> 0xDFFF"

definition surrogate_pair_cp :: "16 word \<Rightarrow> 16 word \<Rightarrow> nat" where
  "surrogate_pair_cp hi lo = (unat hi - 0xD800) * 0x400 + (unat lo - 0xDC00) + 0x10000"

definition utf8_octets :: "nat \<Rightarrow> nat list" where
  "utf8_octets cp =
     (if cp < 0x80 then [cp]
      else if cp < 0x800 then [0xC0 + cp div 0x40, 0x80 + cp mod 0x40]
      else if cp < 0x10000 then
        [0xE0 + cp div 0x1000, 0x80 + (cp div 0x40) mod 0x40, 0x80 + cp mod 0x40]
      else
        [0xF0 + cp div 0x40000, 0x80 + (cp div 0x1000) mod 0x40,
         0x80 + (cp div 0x40) mod 0x40, 0x80 + cp mod 0x40])"

definition hex_digit :: "nat \<Rightarrow> 16 word" where
  "hex_digit d = (if d < 10 then of_nat (0x30 + d) else of_nat (0x41 + (d - 10)))"

definition percent_octet :: "nat \<Rightarrow> jsstring" where
  "percent_octet b = [0x25, hex_digit (b div 16), hex_digit (b mod 16)]"

definition percent_escape :: "nat \<Rightarrow> jsstring" where
  "percent_escape cp = concat (map percent_octet (utf8_octets cp))"

fun prepend :: "jsstring \<Rightarrow> js_error + jsstring \<Rightarrow> js_error + jsstring" where
  "prepend xs (Inl e) = Inl e"
| "prepend xs (Inr ys) = Inr (xs @ ys)"

fun encodeURIComponent :: "jsstring \<Rightarrow> js_error + jsstring" where
  "encodeURIComponent [] = Inr []"
| "encodeURIComponent [c] =
     (if uri_unreserved c then Inr [c]
      else if is_lead_surrogate c \<or> is_trail_surrogate c then Inl URIError
      else Inr (percent_escape (unat c)))"
| "encodeURIComponent (c # d # cs) =
     (if uri_unreserved c then prepend [c] (encodeURIComponent (d # cs))
      else if is_trail_surrogate c then Inl URIError
      else if is_lead_surrogate c then
        (if is_trail_surrogate d
         then prepend (percent_escape (surrogate_pair_cp c d)) (encodeURIComponent cs)
         else Inl URIError)
      else prepend (percent_escape (unat c)) (encodeURIComponent (d # cs)))"

text \<open>A string is well formed when every surrogate code unit is paired.\<close>

fun well_formed_utf16 :: "jsstring \<Rightarrow> bool" where
  "well_formed_utf16 [] = True"
| "well_formed_utf16 [c] = (\<not> is_lead_surrogate c \<and> \<not> is_trail_surrogate c)"
| "well_formed_utf16 (c # d # cs) =
     (if is_lead_surrogate c then is_trail_surrogate d \<and> well_formed_utf16 cs
      else \<not> is_trail_surrogate c \<and> well_formed_utf16 (d # cs))"

text \<open>
  The code units that \<^verbatim>\<open>String.prototype.trim\<close> strips (WhiteSpace and
  LineTerminator of ECMAScript).
\<close>

definition is_js_whitespace :: "16 word \<Rightarrow> bool" where
  "is_js_whitespace c \<longleftrightarrow>
     c \<in> {0x09, 0x0A, 0x0B, 0x0C, 0x0D, 0x20, 0xA0, 0x1680, 0x2028, 0x2029, 0x202F,
          0x205F, 0x3000, 0xFEFF} \<or> (0x2000 \<le> c \<and> c \<le> 0x200A)"

subsection \<open>Class attributes\<close>

text \<open>
  Assigning \<^verbatim>\<open>className\<close> gives the element the ordered set of the tokens of the
  string, split at ASCII whitespace; \<^verbatim>\<open>classList\<close> is that ordered set.
\<close>

definition is_ascii_ws :: "16 word \<Rightarrow> bool" where
  "is_ascii_ws c \<longleftrightarrow> c \<in> {0x09, 0x0A, 0x0C, 0x0D, 0x20}"

fun split_ws :: "jsstring \<Rightarrow> jsstring \<Rightarrow> jsstring list" where
  "split_ws tok [] = (if tok = [] then [] else [tok])"
| "split_ws tok (c # cs) =
     (if is_ascii_ws c then (if tok = [] then split_ws [] cs else tok # split_ws [] cs)
      else split_ws (tok @ [c]) cs)"

fun ordered_set :: "'a list \<Rightarrow> 'a list \<Rightarrow> 'a list" where
  "ordered_set acc [] = acc"
| "ordered_set acc (x # xs) =
     (if x \<in> set acc then ordered_set acc xs else ordered_set (acc @ [x]) xs)"

definition class_tokens :: "jsstring \<Rightarrow> jsstring list" where
  "class_tokens s = ordered_set [] (split_ws [] s)"

definition classList_add :: "jsstring \<Rightarrow> jsstring list \<Rightarrow> jsstring list" where
  "classList_add t cs = (if t \<in> set cs then cs else cs @ [t])"

definition classList_remove :: "jsstring \<Rightarrow> jsstring list \<Rightarrow> jsstring list" where
  "classList_remove t cs = removeAll t cs"

definition classList_toggle :: "jsstring \<Rightarrow> jsstring list \<Rightarrow> jsstring list" where
  "classList_toggle t cs = (if t \<in> set cs then classList_remove t cs else classList_add t cs)"

subsection \<open>Markup\<close>

text \<open>
  Assigning \<^verbatim>\<open>innerHTML\<close> hands a string to the HTML parser of the browser,
  which creates the elements that the markup describes. The parser is not
  part of the script: a page carries it as a parameter (\<open>html_parser\<close> below,
  from a string to the class lists of the elements created), and the
  theorems hold for every parser. To run the model on examples,
  \<open>start_tags\<close> reads the plainest markup the way the tokenizer of the HTML
  standard does: start tags with their attributes, end tags, and text.
  Comments, character references, raw text elements and the rules of the
  tree builder are left out of it.
\<close>

definition is_ascii_letter :: "16 word \<Rightarrow> bool" where
  "is_ascii_letter c \<longleftrightarrow> (0x41 \<le> c \<and> c \<le> 0x5A) \<or> (0x61 \<le> c \<and> c \<le> 0x7A)"

definition ascii_lower :: "16 word \<Rightarrow> 16 word" where
  "ascii_lower c = (if 0x41 \<le> c \<and> c \<le> 0x5A then c + 0x20 else c)"

datatype tag_state =
    Data
  | TagOpen
  | EndTagOpen
  | EndTag
  | TagName
  | BeforeAttributeName
  | AttributeName
  | AfterAttributeName
  | BeforeAttributeValue
  | ValueDoubleQuoted
  | ValueSingleQuoted
  | ValueUnquoted

definition finish_attribute :: "jsstring \<Rightarrow> jsstring \<Rightarrow> jsstring option \<Rightarrow> jsstring option" where
  "finish_attribute nm val cls = (if nm = js ''class'' \<and> cls = None then Some val else cls)"

definition emit_element :: "jsstring option \<Rightarrow> jsstring list" where
  "emit_element cls = (case cls of None \<Rightarrow> [] | Some v \<Rightarrow> class_tokens v)"

fun start_tags ::
  "tag_state \<Rightarrow> jsstring \<Rightarrow> jsstring \<Rightarrow> jsstring option \<Rightarrow> jsstring \<Rightarrow> jsstring list list" where
  "start_tags st nm val cls [] = []"
| "start_tags Data nm val cls (c # cs) =
     (if c = 0x3C then start_tags TagOpen [] [] None cs else start_tags Data [] [] None cs)"
| "start_tags TagOpen nm val cls (c # cs) =
     (if is_ascii_letter c then start_tags TagName [] [] None cs
      else if c = 0x2F then start_tags EndTagOpen [] [] None cs
      else if c = 0x3C then start_tags TagOpen [] [] None cs
      else start_tags Data [] [] None cs)"
| "start_tags EndTagOpen nm val cls (c # cs) =
     (if is_ascii_letter c then start_tags EndTag [] [] None cs else start_tags Data [] [] None cs)"
| "start_tags EndTag nm val cls (c # cs) =
     (if c = 0x3E then start_tags Data [] [] None cs else start_tags EndTag [] [] None cs)"
| "start_tags TagName nm val cls (c # cs) =
     (if is_ascii_ws c \<or> c = 0x2F then start_tags BeforeAttributeName [] [] cls cs
      else if c = 0x3E then emit_element cls # start_tags Data [] [] None cs
      else start_tags TagName [] [] cls cs)"
| "start_tags BeforeAttributeName nm val cls (c # cs) =
     (if is_ascii_ws c \<or> c = 0x2F then start_tags BeforeAttributeName [] [] cls cs
      else if c = 0x3E then emit_element cls # start_tags Data [] [] None cs
      else start_tags AttributeName [ascii_lower c] [] cls cs)"
| "start_tags AttributeName nm val cls (c # cs) =
     (if is_ascii_ws c then start_tags AfterAttributeName nm [] cls cs
      else if c = 0x2F then start_tags BeforeAttributeName [] [] (finish_attribute nm [] cls) cs
      else if c = 0x3E then
        emit_element (finish_attribute nm [] cls) # start_tags Data [] [] None cs
      else if c = 0x3D then start_tags BeforeAttributeValue nm [] cls cs
      else start_tags AttributeName (nm @ [ascii_lower c]) [] cls cs)"
| "start_tags AfterAttributeName nm val cls (c # cs) =
     (if is_ascii_ws c then start_tags AfterAttributeName nm [] cls cs
      else if c = 0x2F then start_tags BeforeAttributeName [] [] (finish_attribute nm [] cls) cs
      else if c = 0x3D then start_tags BeforeAttributeValue nm [] cls cs
      else if c = 0x3E then
        emit_element (finish_attribute nm [] cls) # start_tags Data [] [] None cs
      else start_tags AttributeName [ascii_lower c] [] (finish_attribute nm [] cls) cs)"
| "start_tags BeforeAttributeValue nm val cls (c # cs) =
     (if is_ascii_ws c then start_tags BeforeAttributeValue nm [] cls cs
      else if c = 0x22 then start_tags ValueDoubleQuoted nm [] cls cs
      else if c = 0x27 then start_tags ValueSingleQuoted nm [] cls cs
      else if c = 0x3E then
        emit_element (finish_attribute nm [] cls) # start_tags Data [] [] None cs
      else start_tags ValueUnquoted nm [c] cls cs)"
| "start_tags ValueDoubleQuoted nm val cls (c # cs) =
     (if c = 0x22 then start_tags BeforeAttributeName [] [] (finish_attribute nm val cls) cs
      else start_tags ValueDoubleQuoted nm (val @ [c]) cls cs)"
| "start_tags ValueSingleQuoted nm val cls (c # cs) =
     (if c = 0x27 then start_tags BeforeAttributeName [] [] (finish_attribute nm val cls) cs
      else start_tags ValueSingleQuoted nm (val @ [c]) cls cs)"
| "start_tags ValueUnquoted nm val cls (c # cs) =
     (if is_ascii_ws c then start_tags BeforeAttributeName [] [] (finish_attribute nm val cls) cs
      else if c = 0x3E then
        emit_element (finish_attribute nm val cls) # start_tags Data [] [] None cs
      else start_tags ValueUnquoted nm (val @ [c]) cls cs)"



lemma set_ordered_set: "set (ordered_set acc xs) = set acc \<union> set xs"
  by (induction xs arbitrary: acc) auto

lemma split_ws_first_token:
  "\<forall>c\<in>set w. \<not> is_ascii_ws c \<Longrightarrow> is_ascii_ws sp \<Longrightarrow> tok @ w \<noteq> [] \<Longrightarrow>
   split_ws tok (w @ sp # rest) = (tok @ w) # split_ws [] rest"
  by (induction w arbitrary: tok) auto

subsection \<open>When encodeURIComponent returns\<close>

lemma unreserved_not_surrogate:
  "uri_unreserved c \<Longrightarrow> \<not> is_lead_surrogate c \<and> \<not> is_trail_surrogate c"
  unfolding uri_unreserved_def is_alnum_def is_lead_surrogate_def is_trail_surrogate_def js_def
  by (auto simp: word_le_nat_alt)

lemma lead_not_trail: "is_lead_surrogate c \<Longrightarrow> \<not> is_trail_surrogate c"
  unfolding is_lead_surrogate_def is_trail_surrogate_def
  by (auto simp: word_le_nat_alt)

lemma prepend_Inr: "(\<exists>e. prepend xs r = Inr e) \<longleftrightarrow> (\<exists>e. r = Inr e)"
  by (cases r) auto

lemma encodeURIComponent_defined:
  "(\<exists>e. encodeURIComponent s = Inr e) \<longleftrightarrow> well_formed_utf16 s"
proof (induction s rule: encodeURIComponent.induct)
  case 1
  show ?case by simp
next
  case (2 c)
  show ?case using unreserved_not_surrogate [of c] by auto
next
  case (3 c d cs)
  show ?case
    using 3 unreserved_not_surrogate [of c] lead_not_trail [of c]
    by (auto simp: prepend_Inr)
qed

lemma whitespace_not_surrogate:
  "is_js_whitespace c \<Longrightarrow> \<not> is_lead_surrogate c \<and> \<not> is_trail_surrogate c"
  unfolding is_js_whitespace_def is_lead_surrogate_def is_trail_surrogate_def
  by (auto simp: word_le_nat_alt)

lemma no_surrogates_well_formed:
  "\<forall>c\<in>set s. \<not> is_lead_surrogate c \<and> \<not> is_trail_surrogate c \<Longrightarrow> well_formed_utf16 s"
  by (induction s rule: well_formed_utf16.induct) auto


section \<open>The page\<close>

text \<open>
  The script runs on the browser's event loop: every listener and every timer
  callback runs to completion on the page state and may register timers. The
  model passes that state explicitly. The markup of the page is not part of
  \<^verbatim>\<open>src/\<close>, so the theorems below hold for an arbitrary page state.

  A node is kept in a store, addressed by a number, because the script holds
  references to nodes in closures (the notification of a pending timer) and
  in a module variable (\<^verbatim>\<open>scrollToTopButton\<close>) whether the node is attached
  or not. The elements that the parser creates inside a node are kept with
  the node, as their class lists; their nesting is not kept, so that removing
  one of them leaves in place what it contained.
\<close>

record node =
  classes :: "jsstring list"
  icon :: jsstring
  message :: jsstring
  animation :: jsstring
  inner :: "jsstring list list"
  style :: "jsstring \<rightharpoonup> jsstring"
  attributes :: "jsstring \<rightharpoonup> jsstring"

datatype callback =
    LoginSuccess jsstring
  | LoginRedirect jsstring
  | NotificationTimeout nat
  | NotificationRemove nat
  | DebounceLater

record timer =
  timer_id :: nat
  due :: nat
  callback :: callback

record page =
  clock :: nat
  timers :: "timer list"
  next_timer_id :: nat
  nodes :: "nat \<Rightarrow> node"
  next_node_id :: nat
  body :: "nat list"
  notification_styles :: bool
  nav_menu_classes :: "jsstring list"
  hamburger_classes :: "jsstring list"
  header_background :: jsstring
  scrollY :: real
  scrollToTopButton :: "nat option"
  debounce_timeout :: "nat option"
  client_id_value :: jsstring
  localStorage :: "jsstring \<rightharpoonup> jsstring"
  location_href :: "jsstring option"
  html_parser :: "jsstring \<Rightarrow> jsstring list list"
  scroll_request :: "real option"
  observed :: "nat list"
  image_observed :: "nat list"
  head_styles :: nat

text \<open>
  \<open>clock\<close> counts milliseconds. \<open>timers\<close> holds the pending timers in the
  order of their registration. \<open>body\<close> lists the elements attached to the
  document, in document order. \<open>location_href\<close> is the last URL the script
  assigned to \<^verbatim>\<open>window.location.href\<close>, \<open>scroll_request\<close> the offset of
  the last smooth scroll it asked for with \<^verbatim>\<open>window.scrollTo\<close>. \<open>observed\<close>
  and \<open>image_observed\<close> hold the targets of the two intersection observers.
  \<open>notification_styles\<close> says whether the style element of the notifications
  is in the head of the document, and \<open>head_styles\<close> counts the other style
  elements that the script has appended there.

  Of a node, \<open>inner\<close> holds the class lists of the elements that the parser
  created inside it when \<^verbatim>\<open>innerHTML\<close> was assigned, in the order of their
  start tags; \<open>icon\<close> and \<open>message\<close> keep the two strings that
  \<^verbatim>\<open>showNotification\<close> puts into that markup. \<open>animation\<close> is the style
  property of that name, \<open>style\<close> holds the other style properties and
  \<open>attributes\<close> the attributes that the script sets.
\<close>

subsection \<open>Timers\<close>

definition setTimeout :: "callback \<Rightarrow> nat \<Rightarrow> page \<Rightarrow> page" where
  "setTimeout cb delay s =
     s\<lparr>timers := timers s @ [\<lparr>timer_id = next_timer_id s, due = clock s + delay, callback = cb\<rparr>],
       next_timer_id := Suc (next_timer_id s)\<rparr>"

definition clearTimeout :: "nat option \<Rightarrow> page \<Rightarrow> page" where
  "clearTimeout h s =
     (case h of None \<Rightarrow> s
      | Some i \<Rightarrow> s\<lparr>timers := filter (\<lambda>u. timer_id u \<noteq> i) (timers s)\<rparr>)"

subsection \<open>Mobile navigation (lines 1 to 28)\<close>

definition ACTIVE :: jsstring where
  "ACTIVE = js ''active''"

definition hamburger_click :: "page \<Rightarrow> page" where
  "hamburger_click s =
     s\<lparr>nav_menu_classes := classList_toggle ACTIVE (nav_menu_classes s),
       hamburger_classes := classList_toggle ACTIVE (hamburger_classes s)\<rparr>"

definition nav_link_click :: "page \<Rightarrow> page" where
  "nav_link_click s =
     s\<lparr>nav_menu_classes := classList_remove ACTIVE (nav_menu_classes s),
       hamburger_classes := classList_remove ACTIVE (hamburger_classes s)\<rparr>"

text \<open>
  The listener on the document sees every click; \<open>inside\<close> says whether the
  target lies in the hamburger or in the menu.
\<close>

definition document_click :: "bool \<Rightarrow> page \<Rightarrow> page" where
  "document_click inside s =
     (if \<not> inside then
        s\<lparr>nav_menu_classes := classList_remove ACTIVE (nav_menu_classes s),
          hamburger_classes := classList_remove ACTIVE (hamburger_classes s)\<rparr>
      else s)"

subsection \<open>Notifications (lines 88 to 217)\<close>

definition NOTIFICATION :: jsstring where
  "NOTIFICATION = js ''notification''"

definition getNotificationIcon :: "jsstring \<Rightarrow> jsstring" where
  "getNotificationIcon ty =
     (if ty = js ''success'' then [0x2713]
      else if ty = js ''error'' then [0x2717]
      else if ty = js ''info'' then [0x2139]
      else [0x2139])"

definition is_notification :: "page \<Rightarrow> nat \<Rightarrow> bool" where
  "is_notification s n \<longleftrightarrow> NOTIFICATION \<in> set (classes (nodes s n))"

text \<open>
  \<^verbatim>\<open>querySelectorAll('.notification')\<close> finds the attached nodes of class
  \<^verbatim>\<open>notification\<close> and the elements of that class inside attached nodes;
  \<^verbatim>\<open>remove()\<close> is called on each of them.
\<close>

definition has_notification_class :: "jsstring list \<Rightarrow> bool" where
  "has_notification_class cs \<longleftrightarrow> NOTIFICATION \<in> set cs"

definition remove_notifications :: "page \<Rightarrow> page" where
  "remove_notifications s =
     s\<lparr>body := filter (\<lambda>n. \<not> is_notification s n) (body s),
       nodes := (\<lambda>m. if m \<in> set (body s)
                      then (nodes s m)\<lparr>inner := filter (\<lambda>cs. \<not> has_notification_class cs)
                                                   (inner (nodes s m))\<rparr>
                      else nodes s m)\<rparr>"

text \<open>The string that \<^verbatim>\<open>showNotification\<close> assigns to \<^verbatim>\<open>innerHTML\<close> (lines 97 to 103).\<close>

definition notification_html :: "jsstring \<Rightarrow> jsstring \<Rightarrow> jsstring" where
  \<open>notification_html ic msg =
     [0x0A] @ js ''        <div class="notification-content">'' @
     [0x0A] @ js ''            <span class="notification-icon">'' @ ic @ js ''</span>'' @
     [0x0A] @ js ''            <span class="notification-message">'' @ msg @ js ''</span>'' @
     [0x0A] @ js ''            <button class="notification-close" onclick="this.parentElement.parentElement.remove()">'' @
       [0xD7] @ js ''</button>'' @
     [0x0A] @ js ''        </div>'' @
     [0x0A] @ js ''    ''\<close>


definition showNotification :: "jsstring \<Rightarrow> jsstring \<Rightarrow> page \<Rightarrow> page" where
  "showNotification msg ty s =
     (let s1 = remove_notifications s;
          n = next_node_id s1;
          s2 = s1\<lparr>nodes := (nodes s1)
                  (n := \<lparr>classes = class_tokens (js ''notification notification-'' @ ty),
                         icon = getNotificationIcon ty, message = msg, animation = [],
                         inner = html_parser s1 (notification_html (getNotificationIcon ty) msg),
                         style = Map.empty, attributes = Map.empty\<rparr>),
                next_node_id := Suc n\<rparr>;
          s3 = (if \<not> notification_styles s2 then s2\<lparr>notification_styles := True\<rparr> else s2);
          s4 = s3\<lparr>body := body s3 @ [n]\<rparr>
      in setTimeout (NotificationTimeout n) 5000 s4)"

text \<open>The callback of the five-second timer, and the one it registers.\<close>

definition notification_timeout :: "nat \<Rightarrow> page \<Rightarrow> page" where
  "notification_timeout n s =
     (if n \<in> set (body s) then
        setTimeout (NotificationRemove n) 300
          (s\<lparr>nodes := (nodes s)
               (n := (nodes s n)\<lparr>animation := js ''slideIn 0.3s ease-out reverse''\<rparr>)\<rparr>)
      else s)"

definition notification_remove :: "nat \<Rightarrow> page \<Rightarrow> page" where
  "notification_remove n s = s\<lparr>body := removeAll n (body s)\<rparr>"

text \<open>The inline handler of the close button of notification \<open>n\<close>.\<close>

definition notification_close :: "nat \<Rightarrow> page \<Rightarrow> page" where
  "notification_close n s = s\<lparr>body := removeAll n (body s)\<rparr>"

subsection \<open>Login form (lines 57 to 86)\<close>

definition STORAGE_KEY :: jsstring where
  "STORAGE_KEY = js ''cloud25f-user-id''"

definition REDIRECT_URL :: jsstring where
  "REDIRECT_URL = js ''http://alb-cloud25f-823380760.us-east-2.elb.amazonaws.com?id=''"

definition login_submit :: "page \<Rightarrow> page" where
  "login_submit s =
     (let uid = client_id_value s in
      if uid = [] then
        showNotification (js ''Por favor, preencha todos os campos.'') (js ''error'') s
      else
        setTimeout (LoginSuccess uid) 500
          (showNotification (js ''Processando login...'') (js ''info'') s))"

definition login_success :: "jsstring \<Rightarrow> page \<Rightarrow> page" where
  "login_success uid s =
     (let s1 = showNotification (js ''Login realizado com sucesso! Redirecionando...'')
                 (js ''success'') s;
          s2 = s1\<lparr>localStorage := (localStorage s1)(STORAGE_KEY \<mapsto> uid)\<rparr>
      in setTimeout (LoginRedirect uid) 500 s2)"

definition login_redirect :: "jsstring \<Rightarrow> page \<Rightarrow> js_error + page" where
  "login_redirect uid s =
     (case encodeURIComponent uid of
        Inl e \<Rightarrow> Inl e
      | Inr q \<Rightarrow> Inr (s\<lparr>location_href := Some (REDIRECT_URL @ q)\<rparr>))"

subsection \<open>Scroll listeners (lines 47 to 55, 293 to 366, 388 to 406)\<close>

definition VISIBLE :: jsstring where
  "VISIBLE = js ''visible''"

definition header_scroll :: "page \<Rightarrow> page" where
  "header_scroll s =
     (if scrollY s > 100 then s\<lparr>header_background := js ''hsl(222, 84%, 5%, 0.95)''\<rparr>
      else s\<lparr>header_background := js ''hsl(222, 84%, 5%, 0.9)''\<rparr>)"

definition createScrollToTopButton :: "page \<Rightarrow> page" where
  "createScrollToTopButton s =
     (let n = next_node_id s in
      s\<lparr>nodes := (nodes s)
           (n := \<lparr>classes = class_tokens (js ''scroll-to-top''), icon = [],
                  message = [0x2191], animation = [], inner = html_parser s [0x2191],
                  style = Map.empty,
                  attributes = [js ''aria-label'' \<mapsto> js ''Voltar ao topo'']\<rparr>),
        next_node_id := Suc n,
        scrollToTopButton := Some n,
        head_styles := Suc (head_styles s),
        body := body s @ [n]\<rparr>)"

definition scroll_to_top_scroll :: "page \<Rightarrow> page" where
  "scroll_to_top_scroll s =
     (let s1 = (if scrollToTopButton s = None then createScrollToTopButton s else s) in
      case scrollToTopButton s1 of
        None \<Rightarrow> s1
      | Some b \<Rightarrow>
          if scrollY s1 > 300 then
            s1\<lparr>nodes := (nodes s1)
                 (b := (nodes s1 b)\<lparr>classes := classList_add VISIBLE (classes (nodes s1 b))\<rparr>)\<rparr>
          else
            s1\<lparr>nodes := (nodes s1)
                 (b := (nodes s1 b)\<lparr>classes := classList_remove VISIBLE (classes (nodes s1 b))\<rparr>)\<rparr>)"

text \<open>
  \<^verbatim>\<open>debounce(func, 10)\<close> with the empty \<^verbatim>\<open>func\<close> of the script: the returned
  function, and its \<^verbatim>\<open>later\<close>.
\<close>

definition debouncedScroll :: "page \<Rightarrow> page" where
  "debouncedScroll s =
     (let s1 = clearTimeout (debounce_timeout s) s in
      (setTimeout DebounceLater 10 s1)\<lparr>debounce_timeout := Some (next_timer_id s1)\<rparr>)"

definition debounce_later :: "page \<Rightarrow> page" where
  "debounce_later s = clearTimeout (debounce_timeout s) s"

subsection \<open>Smooth scrolling (lines 30 to 45 and 345 to 350)\<close>



subsection \<open>Scroll animations (lines 219 to 253)\<close>






subsection \<open>Form fields (lines 255 to 272)\<close>






subsection \<open>Lazy loading of images (lines 368 to 386)\<close>







section \<open>The event loop\<close>

text \<open>
  A timer callback runs when its delay has passed. An exception thrown by a
  callback is reported by the browser and leaves the page as it was when the
  exception was thrown.
\<close>


definition run_callback :: "callback \<Rightarrow> page \<Rightarrow> page" where
  "run_callback cb s =
     (case cb of
        LoginSuccess uid \<Rightarrow> login_success uid s
      | LoginRedirect uid \<Rightarrow> (case login_redirect uid s of Inl e \<Rightarrow> s | Inr s' \<Rightarrow> s')
      | NotificationTimeout n \<Rightarrow> notification_timeout n s
      | NotificationRemove n \<Rightarrow> notification_remove n s
      | DebounceLater \<Rightarrow> debounce_later s)"

fun earliest :: "timer \<Rightarrow> timer list \<Rightarrow> timer" where
  "earliest t [] = t"
| "earliest t (u # us) = earliest (if due u < due t then u else t) us"

definition next_timer :: "page \<Rightarrow> timer option" where
  "next_timer s = (case timers s of [] \<Rightarrow> None | t # us \<Rightarrow> Some (earliest t us))"

definition pop_timer :: "timer \<Rightarrow> page \<Rightarrow> page" where
  "pop_timer tm s = s\<lparr>timers := remove1 tm (timers s), clock := max (clock s) (due tm)\<rparr>"

definition fire :: "timer \<Rightarrow> page \<Rightarrow> page" where
  "fire tm s = run_callback (callback tm) (pop_timer tm s)"


text \<open>
  The browser runs the pending timer with the earliest due time next, the one
  registered first among equals. \<open>advance_to t\<close> lets the time pass until
  \<open>t\<close> with no event from the user. It terminates because every callback
  registers timers of a smaller total weight than its own.
\<close>

fun callback_weight :: "callback \<Rightarrow> nat" where
  "callback_weight (LoginSuccess uid) = 5"
| "callback_weight (LoginRedirect uid) = 1"
| "callback_weight (NotificationTimeout n) = 2"
| "callback_weight (NotificationRemove n) = 1"
| "callback_weight DebounceLater = 1"

definition pending_weight :: "page \<Rightarrow> nat" where
  "pending_weight s = sum_list (map (\<lambda>u. callback_weight (callback u)) (timers s))"

lemma earliest_mem: "earliest t us \<in> set (t # us)"
  by (induction us arbitrary: t) auto

lemma next_timer_mem: "next_timer s = Some tm \<Longrightarrow> tm \<in> set (timers s)"
  using earliest_mem by (auto simp: next_timer_def split: list.splits)

lemma weight_remove1:
  "tm \<in> set ts \<Longrightarrow>
   sum_list (map (\<lambda>u. callback_weight (callback u)) (remove1 tm ts)) + callback_weight (callback tm)
   = sum_list (map (\<lambda>u. callback_weight (callback u)) ts)"
  by (induction ts) auto

lemma weight_filter:
  "sum_list (map (\<lambda>u. callback_weight (callback u)) (filter P ts))
   \<le> sum_list (map (\<lambda>u. callback_weight (callback u)) ts)"
  by (induction ts) auto

lemma pending_weight_setTimeout [simp]:
  "pending_weight (setTimeout cb d s) = pending_weight s + callback_weight cb"
  by (simp add: pending_weight_def setTimeout_def)

lemma pending_weight_clearTimeout: "pending_weight (clearTimeout h s) \<le> pending_weight s"
  by (cases h) (simp_all add: pending_weight_def clearTimeout_def weight_filter)

lemma timers_showNotification:
  "timers (showNotification msg ty s)
   = timers s @ [\<lparr>timer_id = next_timer_id s, due = clock s + 5000,
                  callback = NotificationTimeout (next_node_id s)\<rparr>]"
  by (simp add: showNotification_def remove_notifications_def setTimeout_def Let_def)

lemma pending_weight_showNotification [simp]:
  "pending_weight (showNotification msg ty s) = pending_weight s + 2"
  by (simp add: pending_weight_def timers_showNotification)

lemma pending_weight_run_callback:
  "pending_weight (run_callback cb s) < pending_weight s + callback_weight cb"
proof (cases cb)
  case (LoginSuccess uid)
  then show ?thesis
    by (simp add: run_callback_def login_success_def Let_def pending_weight_def
          setTimeout_def timers_showNotification)
next
  case (LoginRedirect uid)
  then show ?thesis
    by (simp add: run_callback_def login_redirect_def pending_weight_def split: sum.splits)
next
  case (NotificationTimeout n)
  then show ?thesis
    by (simp add: run_callback_def notification_timeout_def pending_weight_def setTimeout_def)
next
  case (NotificationRemove n)
  then show ?thesis
    by (simp add: run_callback_def notification_remove_def pending_weight_def)
next
  case DebounceLater
  then show ?thesis
    using pending_weight_clearTimeout [of "debounce_timeout s" s]
    by (simp add: run_callback_def debounce_later_def)
qed

lemma pending_weight_fire:
  assumes "tm \<in> set (timers s)"
  shows "pending_weight (fire tm s) < pending_weight s"
proof -
  let ?s = "s\<lparr>timers := remove1 tm (timers s), clock := max (clock s) (due tm)\<rparr>"
  have "pending_weight ?s + callback_weight (callback tm) = pending_weight s"
    using weight_remove1 [OF assms] by (simp add: pending_weight_def)
  then show ?thesis
    using pending_weight_run_callback [of "callback tm" ?s] by (simp add: fire_def pop_timer_def)
qed

function advance_to :: "nat \<Rightarrow> page \<Rightarrow> page" where
  "advance_to t s =
     (case next_timer s of
        None \<Rightarrow> s\<lparr>clock := max (clock s) t\<rparr>
      | Some tm \<Rightarrow>
          if due tm \<le> t then advance_to t (fire tm s)
          else s\<lparr>clock := max (clock s) t\<rparr>)"
  by pat_completeness auto
termination
  by (relation "measure (\<lambda>(t, s). pending_weight s)")
     (auto dest: next_timer_mem intro: pending_weight_fire)

declare advance_to.simps [simp del]


subsection \<open>Events\<close>

text \<open>
  A click is described by where it lands. A click on the hamburger or on a
  link runs that element's listener and then the listener of the document.
  The close button of a notification can be clicked only while the
  notification is attached.
  \<open>Submit\<close> is the submit event of the login form, \<open>Input\<close> a change of the
  value of the field \<^verbatim>\<open>client-id\<close>, \<open>Scroll y\<close> a scroll event at offset \<open>y\<close>
  (the three scroll listeners run in the order of their registration), and
  \<open>Wait d\<close> the passing of \<open>d\<close> milliseconds.
\<close>

datatype click_target =
    OnHamburger
  | OnNavLink bool
  | OnNavMenu
  | OnNotificationClose nat
  | Elsewhere

datatype event =
    Click click_target
  | Scroll real
  | Input jsstring
  | Submit
  | Wait nat

fun click :: "click_target \<Rightarrow> page \<Rightarrow> page" where
  "click OnHamburger s = document_click True (hamburger_click s)"
| "click (OnNavLink inside) s = document_click inside (nav_link_click s)"
| "click OnNavMenu s = document_click True s"
| "click (OnNotificationClose n) s =
     document_click False
       (if n \<in> set (body s) \<and> is_notification s n then notification_close n s else s)"
| "click Elsewhere s = document_click False s"

fun handle_event :: "event \<Rightarrow> page \<Rightarrow> page" where
  "handle_event (Click tg) s = click tg s"
| "handle_event (Scroll y) s =
     debouncedScroll (scroll_to_top_scroll (header_scroll (s\<lparr>scrollY := y\<rparr>)))"
| "handle_event (Input v) s = s\<lparr>client_id_value := v\<rparr>"
| "handle_event Submit s = login_submit s"
| "handle_event (Wait d) s = advance_to (clock s + d) s"

fun run :: "event list \<Rightarrow> page \<Rightarrow> page" where
  "run [] s = s"
| "run (e # es) s = run es (handle_event e s)"

text \<open>
  A page just loaded: nothing scrolled, typed, stored or scheduled. Its
  parser is \<open>start_tags\<close>.
\<close>

definition empty_node :: node where
  "empty_node = \<lparr>classes = [], icon = [], message = [], animation = [], inner = [],
                  style = Map.empty, attributes = Map.empty\<rparr>"

definition initial_page :: page where
  "initial_page =
     \<lparr>clock = 0, timers = [], next_timer_id = 1, nodes = (\<lambda>n. empty_node), next_node_id = 0,
      body = [], notification_styles = False,
      nav_menu_classes = [js ''nav-menu''], hamburger_classes = [js ''hamburger''],
      header_background = [], scrollY = 0, scrollToTopButton = None, debounce_timeout = None,
      client_id_value = [], localStorage = Map.empty, location_href = None,
      html_parser = start_tags Data [] [] None, scroll_request = None, observed = [],
      image_observed = [], head_styles = 0\<rparr>"

section \<open>Well-formed pages\<close>

text \<open>
  Node and timer numbers are handed out by counters, so in every page the
  script can reach the numbers in use lie below the counters; a pending
  timer is not overdue; the timer named by the debounce handle is a debounce
  timer; the scroll-to-top button is attached and is not a notification.
\<close>



fun callback_node :: "callback \<Rightarrow> nat option" where
  "callback_node (NotificationTimeout n) = Some n"
| "callback_node (NotificationRemove n) = Some n"
| "callback_node cb = None"

definition timer_ok :: "page \<Rightarrow> timer \<Rightarrow> bool" where
  "timer_ok s tm \<longleftrightarrow>
     timer_id tm < next_timer_id s \<and> clock s \<le> due tm
     \<and> (\<forall>n. callback_node (callback tm) = Some n \<longrightarrow>
            n < next_node_id s \<and> scrollToTopButton s \<noteq> Some n)
     \<and> (debounce_timeout s = Some (timer_id tm) \<longrightarrow> callback tm = DebounceLater)"

definition wf_page :: "page \<Rightarrow> bool" where
  "wf_page s \<longleftrightarrow>
     (\<forall>n\<in>set (body s). n < next_node_id s)
     \<and> (\<forall>tm\<in>set (timers s). timer_ok s tm)
     \<and> (\<forall>i. debounce_timeout s = Some i \<longrightarrow> i < next_timer_id s)
     \<and> (\<forall>b. scrollToTopButton s = Some b \<longrightarrow> b \<in> set (body s) \<and> \<not> is_notification s b)"

lemma wf_initial: "wf_page initial_page"
  by (simp add: wf_page_def initial_page_def)

lemma setTimeout_sel [simp]:
  "clock (setTimeout cb d s) = clock s"
  "timers (setTimeout cb d s)
     = timers s @ [\<lparr>timer_id = next_timer_id s, due = clock s + d, callback = cb\<rparr>]"
  "next_timer_id (setTimeout cb d s) = Suc (next_timer_id s)"
  "nodes (setTimeout cb d s) = nodes s"
  "next_node_id (setTimeout cb d s) = next_node_id s"
  "body (setTimeout cb d s) = body s"
  "scrollToTopButton (setTimeout cb d s) = scrollToTopButton s"
  "debounce_timeout (setTimeout cb d s) = debounce_timeout s"
  "localStorage (setTimeout cb d s) = localStorage s"
  "location_href (setTimeout cb d s) = location_href s"
  "client_id_value (setTimeout cb d s) = client_id_value s"
  by (simp_all add: setTimeout_def)

lemma clearTimeout_sel [simp]:
  "clock (clearTimeout h s) = clock s"
  "next_timer_id (clearTimeout h s) = next_timer_id s"
  "nodes (clearTimeout h s) = nodes s"
  "next_node_id (clearTimeout h s) = next_node_id s"
  "body (clearTimeout h s) = body s"
  "scrollToTopButton (clearTimeout h s) = scrollToTopButton s"
  "debounce_timeout (clearTimeout h s) = debounce_timeout s"
  "localStorage (clearTimeout h s) = localStorage s"
  "location_href (clearTimeout h s) = location_href s"
  "client_id_value (clearTimeout h s) = client_id_value s"
  by (simp_all add: clearTimeout_def split: option.splits)

lemma timers_clearTimeout:
  "timers (clearTimeout h s)
   = (case h of None \<Rightarrow> timers s | Some i \<Rightarrow> filter (\<lambda>u. timer_id u \<noteq> i) (timers s))"
  by (simp add: clearTimeout_def split: option.splits)

lemma showNotification_sel [simp]:
  "clock (showNotification msg ty s) = clock s"
  "timers (showNotification msg ty s)
     = timers s @ [\<lparr>timer_id = next_timer_id s, due = clock s + 5000,
                    callback = NotificationTimeout (next_node_id s)\<rparr>]"
  "next_timer_id (showNotification msg ty s) = Suc (next_timer_id s)"
  "next_node_id (showNotification msg ty s) = Suc (next_node_id s)"
  "body (showNotification msg ty s)
     = filter (\<lambda>n. \<not> is_notification s n) (body s) @ [next_node_id s]"
  "scrollToTopButton (showNotification msg ty s) = scrollToTopButton s"
  "debounce_timeout (showNotification msg ty s) = debounce_timeout s"
  "localStorage (showNotification msg ty s) = localStorage s"
  "location_href (showNotification msg ty s) = location_href s"
  "client_id_value (showNotification msg ty s) = client_id_value s"
  by (simp_all add: showNotification_def remove_notifications_def Let_def)

lemma nodes_showNotification:
  "nodes (showNotification msg ty s) (next_node_id s)
   = \<lparr>classes = class_tokens (js ''notification notification-'' @ ty),
      icon = getNotificationIcon ty, message = msg, animation = [],
      inner = html_parser s (notification_html (getNotificationIcon ty) msg),
      style = Map.empty, attributes = Map.empty\<rparr>"
  by (simp add: showNotification_def remove_notifications_def Let_def)

lemma nodes_showNotification_other:
  assumes "m \<noteq> next_node_id s"
  shows "classes (nodes (showNotification msg ty s) m) = classes (nodes s m)"
    and "animation (nodes (showNotification msg ty s) m) = animation (nodes s m)"
    and "icon (nodes (showNotification msg ty s) m) = icon (nodes s m)"
    and "message (nodes (showNotification msg ty s) m) = message (nodes s m)"
  using assms by (simp_all add: showNotification_def remove_notifications_def Let_def)

lemma document_click_sel [simp]:
  "body (document_click inside s) = body s"
  "nodes (document_click inside s) = nodes s"
  "timers (document_click inside s) = timers s"
  "clock (document_click inside s) = clock s"
  "localStorage (document_click inside s) = localStorage s"
  "location_href (document_click inside s) = location_href s"
  by (simp_all add: document_click_def)

lemma timers_scroll_to_top_scroll [simp]:
  "timers (scroll_to_top_scroll s) = timers s"
  "clock (scroll_to_top_scroll s) = clock s"
  "next_timer_id (scroll_to_top_scroll s) = next_timer_id s"
  "debounce_timeout (scroll_to_top_scroll s) = debounce_timeout s"
  by (simp_all add: scroll_to_top_scroll_def createScrollToTopButton_def Let_def
        split: option.splits)

lemma timers_header_scroll [simp]:
  "timers (header_scroll s) = timers s"
  "clock (header_scroll s) = clock s"
  "next_timer_id (header_scroll s) = next_timer_id s"
  "debounce_timeout (header_scroll s) = debounce_timeout s"
  by (simp_all add: header_scroll_def)

lemma clock_login_submit [simp]: "clock (login_submit s) = clock s"
  by (simp add: login_submit_def Let_def)


lemma notification_token:
  "NOTIFICATION \<in> set (class_tokens (js ''notification notification-'' @ ty))"
proof -
  have e: "js ''notification notification-'' @ ty
           = js ''notification'' @ 0x20 # (js ''notification-'' @ ty)"
    by (simp add: js_def)
  have "split_ws [] (js ''notification'' @ 0x20 # (js ''notification-'' @ ty))
        = ([] @ js ''notification'') # split_ws [] (js ''notification-'' @ ty)"
    by (rule split_ws_first_token) (simp_all add: js_def is_ascii_ws_def)
  then show ?thesis
    by (simp add: class_tokens_def set_ordered_set e NOTIFICATION_def)
qed

lemma is_notification_showNotification:
  "is_notification (showNotification msg ty s) n
   \<longleftrightarrow> n = next_node_id s \<or> is_notification s n"
  by (cases "n = next_node_id s")
     (simp_all add: is_notification_def nodes_showNotification nodes_showNotification_other
        notification_token)

lemma wf_showNotification:
  assumes "wf_page s"
  shows "wf_page (showNotification msg ty s)"
  using assms
  by (auto simp: wf_page_def timer_ok_def is_notification_showNotification less_Suc_eq)

lemma wf_setTimeout:
  assumes "wf_page s" and "callback_node cb = None"
  shows "wf_page (setTimeout cb d s)"
  using assms
  by (auto simp: wf_page_def timer_ok_def is_notification_def less_Suc_eq)

lemma wf_clearTimeout:
  assumes "wf_page s"
  shows "wf_page (clearTimeout h s)"
  using assms
  by (cases h) (auto simp: wf_page_def timer_ok_def is_notification_def timers_clearTimeout)


lemma earliest_le_first: "due (earliest t us) \<le> due t"
proof (induction us arbitrary: t)
  case Nil
  show ?case by simp
next
  case (Cons v vs)
  have "due (earliest (if due v < due t then v else t) vs) \<le> due (if due v < due t then v else t)"
    by (rule Cons.IH)
  then show ?case by (simp split: if_splits)
qed

lemma earliest_le_rest: "u \<in> set us \<Longrightarrow> due (earliest t us) \<le> due u"
proof (induction us arbitrary: t)
  case Nil
  then show ?case by simp
next
  case (Cons v vs)
  show ?case
  proof (cases "u = v")
    case True
    have "due (earliest (if due v < due t then v else t) vs) \<le> due (if due v < due t then v else t)"
      by (rule earliest_le_first)
    then show ?thesis using True by (simp split: if_splits)
  next
    case False
    then have "u \<in> set vs" using Cons.prems by simp
    then show ?thesis using Cons.IH by simp
  qed
qed

lemma next_timer_least:
  "next_timer s = Some tm \<Longrightarrow> u \<in> set (timers s) \<Longrightarrow> due tm \<le> due u"
  using earliest_le_first earliest_le_rest by (auto simp: next_timer_def split: list.splits)

lemma next_timer_None: "next_timer s = None \<longleftrightarrow> timers s = []"
  by (simp add: next_timer_def split: list.splits)

lemma advance_to_rule:
  assumes init: "P s"
    and step: "\<And>s' tm. P s' \<Longrightarrow> next_timer s' = Some tm \<Longrightarrow> due tm \<le> t \<Longrightarrow> P (fire tm s')"
    and fin: "\<And>s'. P s' \<Longrightarrow> \<forall>u\<in>set (timers s'). t < due u \<Longrightarrow> Q (s'\<lparr>clock := max (clock s') t\<rparr>)"
  shows "Q (advance_to t s)"
  using assms
proof (induction t s rule: advance_to.induct)
  case (1 t s)
  show ?case
  proof (cases "next_timer s")
    case None
    then have "timers s = []" by (simp add: next_timer_None)
    then have "Q (s\<lparr>clock := max (clock s) t\<rparr>)" using "1.prems"(3) [OF "1.prems"(1)] by simp
    then show ?thesis using None by (simp add: advance_to.simps)
  next
    case (Some tm)
    show ?thesis
    proof (cases "due tm \<le> t")
      case True
      have "P (fire tm s)" using "1.prems"(1) Some True by (rule "1.prems"(2))
      then have "Q (advance_to t (fire tm s))"
        using "1.IH" [OF Some True] "1.prems"(2,3) by blast
      then show ?thesis using Some True by (simp add: advance_to.simps)
    next
      case False
      have "\<forall>u\<in>set (timers s). t < due u"
        using next_timer_least [OF Some] False by fastforce
      then have "Q (s\<lparr>clock := max (clock s) t\<rparr>)" using "1.prems"(1,3) by blast
      then show ?thesis using Some False by (simp add: advance_to.simps)
    qed
  qed
qed


lemma wf_notification_timeout:
  assumes "wf_page s" and "scrollToTopButton s \<noteq> Some n"
  shows "wf_page (notification_timeout n s)"
proof (cases "n \<in> set (body s)")
  case False
  then show ?thesis using assms by (simp add: notification_timeout_def)
next
  case True
  then have "n < next_node_id s" using assms by (simp add: wf_page_def)
  then show ?thesis
    using assms True
    by (auto simp: notification_timeout_def wf_page_def timer_ok_def is_notification_def
          less_Suc_eq)
qed

lemma wf_notification_remove:
  assumes "wf_page s" and "scrollToTopButton s \<noteq> Some n"
  shows "wf_page (notification_remove n s)"
  using assms
  by (auto simp: notification_remove_def wf_page_def timer_ok_def is_notification_def)


lemma wf_login_success:
  assumes "wf_page s"
  shows "wf_page (login_success uid s)"
proof -
  let ?s1 = "showNotification (js ''Login realizado com sucesso! Redirecionando...'')
               (js ''success'') s"
  have "wf_page ?s1" using assms by (rule wf_showNotification)
  then have "wf_page (?s1\<lparr>localStorage := (localStorage ?s1)(STORAGE_KEY \<mapsto> uid)\<rparr>)"
    by (simp add: wf_page_def timer_ok_def is_notification_def)
  then show ?thesis
    by (simp add: login_success_def Let_def wf_setTimeout)
qed

lemma wf_run_callback:
  assumes "wf_page s"
    and "\<And>n. callback_node cb = Some n \<Longrightarrow> n < next_node_id s \<and> scrollToTopButton s \<noteq> Some n"
  shows "wf_page (run_callback cb s)"
proof (cases cb)
  case (LoginSuccess uid)
  then show ?thesis using assms(1) by (simp add: run_callback_def wf_login_success)
next
  case (LoginRedirect uid)
  then show ?thesis
    using assms(1)
    by (auto simp: run_callback_def login_redirect_def wf_page_def timer_ok_def
          is_notification_def split: sum.splits)
next
  case (NotificationTimeout n)
  then show ?thesis using assms by (simp add: run_callback_def wf_notification_timeout)
next
  case (NotificationRemove n)
  then show ?thesis using assms by (simp add: run_callback_def wf_notification_remove)
next
  case DebounceLater
  then show ?thesis using assms(1) by (simp add: run_callback_def debounce_later_def wf_clearTimeout)
qed

lemma pop_timer_sel [simp]:
  "timers (pop_timer tm s) = remove1 tm (timers s)"
  "clock (pop_timer tm s) = max (clock s) (due tm)"
  "localStorage (pop_timer tm s) = localStorage s"
  "location_href (pop_timer tm s) = location_href s"
  "next_node_id (pop_timer tm s) = next_node_id s"
  "next_timer_id (pop_timer tm s) = next_timer_id s"
  "body (pop_timer tm s) = body s"
  "nodes (pop_timer tm s) = nodes s"
  "scrollToTopButton (pop_timer tm s) = scrollToTopButton s"
  "debounce_timeout (pop_timer tm s) = debounce_timeout s"
  by (simp_all add: pop_timer_def)

lemma wf_pop_timer:
  assumes "wf_page s" and "next_timer s = Some tm"
  shows "wf_page (pop_timer tm s)" and "clock (pop_timer tm s) = due tm"
proof -
  have mem: "tm \<in> set (timers s)" using assms(2) by (rule next_timer_mem)
  then have ok: "timer_ok s tm" using assms(1) by (simp add: wf_page_def)
  then show clk: "clock (pop_timer tm s) = due tm" by (simp add: timer_ok_def)
  have least: "\<And>u. u \<in> set (timers s) \<Longrightarrow> due tm \<le> due u"
    using next_timer_least [OF assms(2)] .
  have "\<And>u. u \<in> set (remove1 tm (timers s)) \<Longrightarrow> timer_ok (pop_timer tm s) u"
  proof -
    fix u assume "u \<in> set (remove1 tm (timers s))"
    then have u: "u \<in> set (timers s)" using set_remove1_subset [of tm "timers s"] by blast
    then have "timer_ok s u" using assms(1) by (simp add: wf_page_def)
    then show "timer_ok (pop_timer tm s) u" using least [OF u] clk by (simp add: timer_ok_def)
  qed
  then show "wf_page (pop_timer tm s)"
    using assms(1) by (simp add: wf_page_def is_notification_def)
qed

lemma wf_fire:
  assumes "wf_page s" and "next_timer s = Some tm"
  shows "wf_page (fire tm s)"
proof -
  have mem: "tm \<in> set (timers s)" using assms(2) by (rule next_timer_mem)
  then have ok: "timer_ok s tm" using assms(1) by (simp add: wf_page_def)
  have "wf_page (pop_timer tm s)" using assms by (rule wf_pop_timer)
  moreover have "\<And>n. callback_node (callback tm) = Some n \<Longrightarrow>
                   n < next_node_id (pop_timer tm s) \<and> scrollToTopButton (pop_timer tm s) \<noteq> Some n"
    using ok by (simp add: timer_ok_def)
  ultimately show ?thesis unfolding fire_def by (rule wf_run_callback)
qed

lemma wf_set_clock:
  assumes "wf_page s" and "\<forall>u\<in>set (timers s). t < due u"
  shows "wf_page (s\<lparr>clock := max (clock s) t\<rparr>)"
  using assms by (auto simp: wf_page_def timer_ok_def is_notification_def)

lemma wf_advance_to:
  assumes "wf_page s"
  shows "wf_page (advance_to t s)"
proof (rule advance_to_rule [where P = wf_page])
  show "wf_page s" by (rule assms)
next
  fix s' tm assume "wf_page s'" "next_timer s' = Some tm"
  then show "wf_page (fire tm s')" by (rule wf_fire)
next
  fix s' assume "wf_page s'" "\<forall>u\<in>set (timers s'). t < due u"
  then show "wf_page (s'\<lparr>clock := max (clock s') t\<rparr>)"
    by (rule wf_set_clock)
qed


subsection \<open>Every event keeps the page well formed\<close>


lemma notification_ne_visible: "NOTIFICATION \<noteq> VISIBLE"
  by (simp add: NOTIFICATION_def VISIBLE_def js_def)

lemma scroll_to_top_tokens: "class_tokens (js ''scroll-to-top'') = [js ''scroll-to-top'']"
  by (simp add: class_tokens_def js_def is_ascii_ws_def)

lemma notification_notin_scroll_to_top: "NOTIFICATION \<notin> set (class_tokens (js ''scroll-to-top''))"
  by (simp add: scroll_to_top_tokens) (simp add: NOTIFICATION_def js_def)

lemma wf_header_scroll: "wf_page s \<Longrightarrow> wf_page (header_scroll s)"
  by (simp add: header_scroll_def wf_page_def timer_ok_def is_notification_def)

lemma wf_createScrollToTopButton:
  assumes "wf_page s" and "scrollToTopButton s = None"
  shows "wf_page (createScrollToTopButton s)"
  using assms notification_notin_scroll_to_top
  by (auto simp: createScrollToTopButton_def Let_def wf_page_def timer_ok_def
        is_notification_def less_Suc_eq)

lemma wf_set_button_classes:
  assumes "wf_page s" and "scrollToTopButton s = Some b"
    and "NOTIFICATION \<in> set cs \<Longrightarrow> NOTIFICATION \<in> set (classes (nodes s b))"
  shows "wf_page (s\<lparr>nodes := (nodes s)(b := (nodes s b)\<lparr>classes := cs\<rparr>)\<rparr>)"
  using assms by (auto simp: wf_page_def timer_ok_def is_notification_def)

text \<open>The second half of the scroll listener of the button, once the button exists.\<close>

definition set_button_visibility :: "page \<Rightarrow> page" where
  "set_button_visibility s1 =
     (case scrollToTopButton s1 of
        None \<Rightarrow> s1
      | Some b \<Rightarrow>
          if scrollY s1 > 300 then
            s1\<lparr>nodes := (nodes s1)
                 (b := (nodes s1 b)\<lparr>classes := classList_add VISIBLE (classes (nodes s1 b))\<rparr>)\<rparr>
          else
            s1\<lparr>nodes := (nodes s1)
                 (b := (nodes s1 b)\<lparr>classes := classList_remove VISIBLE (classes (nodes s1 b))\<rparr>)\<rparr>)"

lemma scroll_to_top_scroll_eq:
  "scroll_to_top_scroll s =
     set_button_visibility (if scrollToTopButton s = None then createScrollToTopButton s else s)"
  by (simp add: scroll_to_top_scroll_def set_button_visibility_def Let_def)

lemma wf_set_button_visibility:
  assumes "wf_page s"
  shows "wf_page (set_button_visibility s)"
proof (cases "scrollToTopButton s")
  case None
  then show ?thesis using assms by (simp add: set_button_visibility_def)
next
  case (Some b)
  have a: "wf_page (s\<lparr>nodes := (nodes s)
             (b := (nodes s b)\<lparr>classes := classList_add VISIBLE (classes (nodes s b))\<rparr>)\<rparr>)"
    using assms Some
    by (rule wf_set_button_classes)
       (simp add: classList_add_def notification_ne_visible split: if_splits)
  have r: "wf_page (s\<lparr>nodes := (nodes s)
             (b := (nodes s b)\<lparr>classes := classList_remove VISIBLE (classes (nodes s b))\<rparr>)\<rparr>)"
    using assms Some
    by (rule wf_set_button_classes) (simp add: classList_remove_def)
  show ?thesis
    using Some a r by (simp add: set_button_visibility_def del: fun_upd_apply)
qed

lemma wf_scroll_to_top_scroll:
  assumes "wf_page s"
  shows "wf_page (scroll_to_top_scroll s)"
  unfolding scroll_to_top_scroll_eq
  using assms by (auto intro!: wf_set_button_visibility wf_createScrollToTopButton)

lemma wf_debouncedScroll:
  assumes "wf_page s"
  shows "wf_page (debouncedScroll s)"
proof -
  let ?s1 = "clearTimeout (debounce_timeout s) s"
  have "wf_page ?s1" using assms by (rule wf_clearTimeout)
  then show ?thesis
    by (auto simp: debouncedScroll_def Let_def wf_page_def timer_ok_def is_notification_def
          less_Suc_eq)
qed

lemma wf_document_click: "wf_page s \<Longrightarrow> wf_page (document_click inside s)"
  by (simp add: document_click_def wf_page_def timer_ok_def is_notification_def)

lemma wf_login_submit: "wf_page s \<Longrightarrow> wf_page (login_submit s)"
  by (simp add: login_submit_def Let_def wf_showNotification wf_setTimeout)

lemma wf_click:
  assumes "wf_page s"
  shows "wf_page (click tg s)"
proof (cases tg)
  case OnHamburger
  have "wf_page (hamburger_click s)"
    using assms by (simp add: hamburger_click_def wf_page_def timer_ok_def is_notification_def)
  then show ?thesis using OnHamburger by (simp add: wf_document_click)
next
  case (OnNavLink inside)
  have "wf_page (nav_link_click s)"
    using assms by (simp add: nav_link_click_def wf_page_def timer_ok_def is_notification_def)
  then show ?thesis using OnNavLink by (simp add: wf_document_click)
next
  case OnNavMenu
  then show ?thesis using assms by (simp add: wf_document_click)
next
  case (OnNotificationClose n)
  have "wf_page (notification_close n s)" if "is_notification s n"
    using assms that
    by (auto simp: notification_close_def wf_page_def timer_ok_def is_notification_def)
  then show ?thesis using OnNotificationClose assms by (simp add: wf_document_click)
next
  case Elsewhere
  then show ?thesis using assms by (simp add: wf_document_click)
qed

lemma wf_handle_event:
  assumes "wf_page s"
  shows "wf_page (handle_event e s)"
proof (cases e)
  case (Click tg)
  then show ?thesis using assms by (simp add: wf_click)
next
  case (Scroll y)
  have "wf_page (s\<lparr>scrollY := y\<rparr>)"
    using assms by (simp add: wf_page_def timer_ok_def is_notification_def)
  then show ?thesis
    using Scroll by (simp add: wf_header_scroll wf_scroll_to_top_scroll wf_debouncedScroll)
next
  case (Input v)
  then show ?thesis
    using assms by (simp add: wf_page_def timer_ok_def is_notification_def)
next
  case Submit
  then show ?thesis using assms by (simp add: wf_login_submit)
next
  case (Wait d)
  then show ?thesis using assms by (simp add: wf_advance_to)
qed

lemma wf_run: "wf_page s \<Longrightarrow> wf_page (run es s)"
  by (induction es arbitrary: s) (simp_all add: wf_handle_event)

lemma wf_reachable: "wf_page (run es initial_page)"
  using wf_initial by (rule wf_run)


subsection \<open>The clock\<close>

text \<open>Only waiting moves the clock: a run of events takes as long as its waits.\<close>


lemma clock_run_callback [simp]: "clock (run_callback cb s) = clock s"
  by (cases cb)
     (simp_all add: run_callback_def login_success_def Let_def login_redirect_def
        notification_timeout_def notification_remove_def debounce_later_def split: sum.splits)

lemma clock_advance_to: "clock (advance_to t s) = max (clock s) t"
proof (rule advance_to_rule [where P = "\<lambda>s'. clock s \<le> clock s' \<and> clock s' \<le> max (clock s) t"])
  show "clock s \<le> clock s \<and> clock s \<le> max (clock s) t" by simp
next
  fix s' :: page and tm :: timer
  assume "clock s \<le> clock s' \<and> clock s' \<le> max (clock s) t" and "due tm \<le> t"
  then show "clock s \<le> clock (fire tm s') \<and> clock (fire tm s') \<le> max (clock s) t"
    by (auto simp: fire_def)
next
  fix s' :: page
  assume "clock s \<le> clock s' \<and> clock s' \<le> max (clock s) t"
  then show "clock (s'\<lparr>clock := max (clock s') t\<rparr>) = max (clock s) t" by auto
qed

fun elapsed :: "event list \<Rightarrow> nat" where
  "elapsed [] = 0"
| "elapsed (Wait d # es) = d + elapsed es"
| "elapsed (e # es) = elapsed es"

lemma clock_click [simp]: "clock (click tg s) = clock s"
  by (cases tg)
     (simp_all add: hamburger_click_def nav_link_click_def notification_close_def)

lemma clock_scroll [simp]:
  "clock (debouncedScroll s) = clock s"
  by (simp add: debouncedScroll_def Let_def)

lemma clock_handle_event:
  "clock (handle_event e s) = clock s + elapsed [e]"
  by (cases e) (simp_all add: clock_advance_to)

lemma elapsed_Cons: "elapsed (e # es) = elapsed [e] + elapsed es"
  by (cases e) simp_all

lemma clock_run: "clock (run es s) = clock s + elapsed es"
proof (induction es arbitrary: s)
  case Nil
  show ?case by simp
next
  case (Cons e es)
  show ?case
    using Cons [of "handle_event e s"] clock_handle_event [of e s] elapsed_Cons [of e es]
    by simp
qed



section \<open>Mobile menu\<close>

lemma classList_toggle_twice:
  "t \<notin> set cs \<Longrightarrow> classList_toggle t (classList_toggle t cs) = cs"
  by (simp add: classList_toggle_def classList_add_def classList_remove_def)

text \<open>
  Claim C6. Starting with no \<^verbatim>\<open>active\<close> class on the menu and on the
  hamburger, two clicks on the hamburger give back the page as it was: the
  class lists of both elements are the original ones and nothing else has
  changed.
\<close>

theorem hamburger_toggle_twice:
  assumes "ACTIVE \<notin> set (nav_menu_classes s)" and "ACTIVE \<notin> set (hamburger_classes s)"
  shows "handle_event (Click OnHamburger) (handle_event (Click OnHamburger) s) = s"
  using assms by (simp add: document_click_def hamburger_click_def classList_toggle_twice)

theorem hamburger_toggle_twice_witness:
  "ACTIVE \<notin> set (nav_menu_classes initial_page) \<and> ACTIVE \<notin> set (hamburger_classes initial_page)
   \<and> handle_event (Click OnHamburger) (handle_event (Click OnHamburger) initial_page) = initial_page
   \<and> ACTIVE \<in> set (nav_menu_classes (handle_event (Click OnHamburger) initial_page))"
proof -
  have a: "ACTIVE \<notin> set (nav_menu_classes initial_page)"
    by (simp add: initial_page_def ACTIVE_def js_def)
  have b: "ACTIVE \<notin> set (hamburger_classes initial_page)"
    by (simp add: initial_page_def ACTIVE_def js_def)
  have c: "ACTIVE \<in> set (nav_menu_classes (handle_event (Click OnHamburger) initial_page))"
    using a by (simp add: document_click_def hamburger_click_def classList_toggle_def
          classList_add_def classList_remove_def)
  show ?thesis using a b c hamburger_toggle_twice [OF a b] by simp
qed


section \<open>Notifications\<close>

text \<open>
  The number of elements that \<^verbatim>\<open>querySelectorAll('.notification')\<close> finds
  in the document: attached nodes of the class, and elements of the class
  inside attached nodes.
\<close>

definition notification_elements :: "page \<Rightarrow> nat" where
  "notification_elements s =
     (\<Sum>n\<leftarrow>body s. (if is_notification s n then 1 else 0)
                   + length (filter has_notification_class (inner (nodes s n))))"

lemma html_parser_showNotification [simp]:
  "html_parser (showNotification msg ty s) = html_parser s"
  by (simp add: showNotification_def remove_notifications_def Let_def setTimeout_def)

lemma inner_showNotification_other:
  assumes "m \<in> set (body s)" and "m \<noteq> next_node_id s"
  shows "inner (nodes (showNotification msg ty s) m)
         = filter (\<lambda>cs. \<not> has_notification_class cs) (inner (nodes s m))"
  using assms by (simp add: showNotification_def remove_notifications_def Let_def)

lemma notification_elements_showNotification:
  assumes "next_node_id s \<notin> set (body s)"
  shows "notification_elements (showNotification msg ty s)
         = 1 + length (filter has_notification_class
                 (html_parser s (notification_html (getNotificationIcon ty) msg)))"
proof -
  let ?s' = "showNotification msg ty s" and ?n = "next_node_id s"
  have old: "(if is_notification ?s' m then 1 else 0)
               + length (filter has_notification_class (inner (nodes ?s' m))) = (0::nat)"
    if "m \<in> set (filter (\<lambda>n. \<not> is_notification s n) (body s))" for m
  proof -
    have m: "m \<in> set (body s)" "m \<noteq> ?n" "\<not> is_notification s m"
      using that assms by auto
    have "\<not> is_notification ?s' m" using m by (simp add: is_notification_showNotification)
    moreover have "filter has_notification_class (inner (nodes ?s' m)) = []"
      using m by (simp add: inner_showNotification_other filter_empty_conv)
    ultimately show ?thesis by simp
  qed
  have "(\<Sum>m\<leftarrow>filter (\<lambda>n. \<not> is_notification s n) (body s).
            (if is_notification ?s' m then 1 else 0)
            + length (filter has_notification_class (inner (nodes ?s' m)))) = (0::nat)"
    using old by (simp add: sum_list_eq_0_iff)
  then show ?thesis
    by (simp add: notification_elements_def is_notification_showNotification
          nodes_showNotification)
qed


lemmas parse_defs = notification_html_def js_def is_ascii_letter_def ascii_lower_def
  is_ascii_ws_def finish_attribute_def emit_element_def class_tokens_def

lemma info_icon: "getNotificationIcon (js ''info'') = [0x2139]"
  by (simp add: getNotificationIcon_def js_def)

lemma parse_plain_message:
  "start_tags Data [] [] None (notification_html [0x2139] (js ''Processando login...''))
   = [[js ''notification-content''], [js ''notification-icon''], [js ''notification-message''],
      [js ''notification-close'']]"
  by (simp add: parse_defs)

lemma parse_markup_message:
  "start_tags Data [] [] None (notification_html [0x2139] (js ''<b class=notification>x</b>''))
   = [[js ''notification-content''], [js ''notification-icon''], [js ''notification-message''],
      [js ''notification''], [js ''notification-close'']]"
  by (simp add: parse_defs)

lemma count_plain_message:
  "length (filter has_notification_class
     (start_tags Data [] [] None (notification_html [0x2139] (js ''Processando login...'')))) = 0"
  unfolding parse_plain_message by (simp add: has_notification_class_def NOTIFICATION_def js_def)

lemma count_markup_message:
  "length (filter has_notification_class
     (start_tags Data [] [] None
        (notification_html [0x2139] (js ''<b class=notification>x</b>'')))) = 1"
  unfolding parse_markup_message by (simp add: has_notification_class_def NOTIFICATION_def js_def)

lemma initial_parser: "html_parser initial_page = start_tags Data [] [] None"
  "next_node_id initial_page \<notin> set (body initial_page)"
  by (simp_all add: initial_page_def)

text \<open>
  Claim C3, as stated, fails: the message is written into the markup of the
  new node, so a message that carries an element of class \<^verbatim>\<open>notification\<close>
  leaves two notification elements in the document.
\<close>

theorem showNotification_markup_counterexample:
  "notification_elements
     (showNotification (js ''<b class=notification>x</b>'') (js ''info'') initial_page) = 2"
  using notification_elements_showNotification [OF initial_parser(2),
      of "js ''<b class=notification>x</b>''" "js ''info''"]
  by (simp add: initial_parser(1) info_icon count_markup_message)

text \<open>
  Claim C3, amended. A call of \<^verbatim>\<open>showNotification\<close> removes every
  notification element and then appends the new node, so that afterwards
  the new node is the only attached node of class \<^verbatim>\<open>notification\<close>, and
  the only other elements of that class in the document are those that the
  markup of the new node itself creates: none, and so one notification
  element in all, whenever the message brings no such element.
\<close>

theorem showNotification_replaces:
  assumes "next_node_id s \<notin> set (body s)"
  shows "body (showNotification msg ty s)
           = filter (\<lambda>n. \<not> is_notification s n) (body s) @ [next_node_id s]
         \<and> filter (is_notification (showNotification msg ty s)) (body (showNotification msg ty s))
           = [next_node_id s]
         \<and> notification_elements (showNotification msg ty s)
           = 1 + length (filter has_notification_class
                   (html_parser s (notification_html (getNotificationIcon ty) msg)))"
proof -
  have "filter (is_notification (showNotification msg ty s))
          (filter (\<lambda>n. \<not> is_notification s n) (body s)) = []"
    using assms by (auto simp: filter_empty_conv is_notification_showNotification)
  then show ?thesis
    using notification_elements_showNotification [OF assms, of msg ty]
    by (simp add: is_notification_showNotification)
qed

theorem showNotification_replaces_witness:
  "next_node_id (showNotification (js ''<b class=notification>x</b>'') (js ''info'') initial_page)
     \<notin> set (body (showNotification (js ''<b class=notification>x</b>'') (js ''info'')
                  initial_page))
   \<and> body (showNotification (js ''<b class=notification>x</b>'') (js ''info'') initial_page) = [0]
   \<and> filter (is_notification
         (showNotification (js ''Processando login...'') (js ''info'')
            (showNotification (js ''<b class=notification>x</b>'') (js ''info'') initial_page)))
       (body (showNotification (js ''Processando login...'') (js ''info'')
            (showNotification (js ''<b class=notification>x</b>'') (js ''info'') initial_page)))
     = [1]
   \<and> notification_elements
         (showNotification (js ''Processando login...'') (js ''info'')
            (showNotification (js ''<b class=notification>x</b>'') (js ''info'') initial_page))
     = 1"
proof -
  let ?s = "showNotification (js ''<b class=notification>x</b>'') (js ''info'') initial_page"
  have h: "next_node_id ?s \<notin> set (body ?s)" by (simp add: initial_page_def)
  have b: "body ?s = [0]" by (simp add: initial_page_def)
  have n: "next_node_id ?s = 1" by (simp add: initial_page_def)
  show ?thesis
    using h b showNotification_replaces [OF h, of "js ''Processando login...''" "js ''info''"]
    by (simp add: n initial_parser(1) info_icon count_plain_message)
qed

text \<open>
  Claim C10. The callback of the five-second timer of a notification that is
  no longer attached changes nothing: it sets no style and registers no
  timer.
\<close>

theorem notification_timeout_detached:
  assumes "n \<notin> set (body s)"
  shows "run_callback (NotificationTimeout n) s = s"
  using assms by (simp add: run_callback_def notification_timeout_def)


theorem notification_timeout_detached_witness:
  "body (handle_event Submit initial_page) = [0]
   \<and> 0 \<notin> set (body (run [Submit, Click (OnNotificationClose 0)] initial_page))
   \<and> run_callback (NotificationTimeout 0) (run [Submit, Click (OnNotificationClose 0)] initial_page)
     = run [Submit, Click (OnNotificationClose 0)] initial_page"
proof -
  let ?s1 = "handle_event Submit initial_page"
  have s1: "?s1 = showNotification (js ''Por favor, preencha todos os campos.'') (js ''error'')
                    initial_page"
    by (simp add: login_submit_def initial_page_def)
  have b: "body ?s1 = [0]" unfolding s1 by (simp add: initial_page_def)
  have i: "is_notification ?s1 0"
    unfolding s1 by (simp add: is_notification_showNotification) (simp add: initial_page_def)
  have h: "0 \<notin> set (body (run [Submit, Click (OnNotificationClose 0)] initial_page))"
    using b i by (simp add: notification_close_def)
  show ?thesis using b h notification_timeout_detached [OF h] by simp
qed

section \<open>Scroll-to-top button\<close>

text \<open>
  The button is visible when it is attached and carries the class
  \<^verbatim>\<open>visible\<close>; the style sheet of \<^verbatim>\<open>createScrollToTopButton\<close> hides it
  otherwise.
\<close>

definition button_visible :: "page \<Rightarrow> bool" where
  "button_visible s \<longleftrightarrow>
     (case scrollToTopButton s of
        None \<Rightarrow> False
      | Some b \<Rightarrow> b \<in> set (body s) \<and> VISIBLE \<in> set (classes (nodes s b)))"

lemma button_visible_debouncedScroll [simp]:
  "button_visible (debouncedScroll s) = button_visible s"
  by (simp add: button_visible_def debouncedScroll_def Let_def split: option.splits)

lemma scrollY_header_scroll [simp]: "scrollY (header_scroll s) = scrollY s"
  by (simp add: header_scroll_def)

lemma button_visible_set_button_visibility:
  assumes "scrollToTopButton s = Some b" and "b \<in> set (body s)"
  shows "button_visible (set_button_visibility s) \<longleftrightarrow> 300 < scrollY s"
  using assms
  by (simp add: button_visible_def set_button_visibility_def classList_add_def
        classList_remove_def)

text \<open>
  Claim C5. After the scroll listeners have run at offset \<open>y\<close>, the button
  is visible exactly when \<open>y\<close> exceeds 300.
\<close>

theorem scroll_button_visibility:
  assumes "wf_page s"
  shows "button_visible (handle_event (Scroll y) s) \<longleftrightarrow> 300 < y"
proof -
  let ?s0 = "header_scroll (s\<lparr>scrollY := y\<rparr>)"
  let ?s1 = "if scrollToTopButton ?s0 = None then createScrollToTopButton ?s0 else ?s0"
  have w: "wf_page ?s0"
    using assms by (simp add: header_scroll_def wf_page_def timer_ok_def is_notification_def)
  obtain b where b: "scrollToTopButton ?s1 = Some b" "b \<in> set (body ?s1)"
    using w by (cases "scrollToTopButton ?s0")
      (auto simp: createScrollToTopButton_def Let_def wf_page_def)
  have y: "scrollY ?s1 = y"
    by (simp add: createScrollToTopButton_def Let_def)
  show ?thesis
    using button_visible_set_button_visibility [OF b] y
    by (simp add: scroll_to_top_scroll_eq)
qed


theorem scroll_button_visibility_witness:
  "wf_page initial_page
   \<and> button_visible (handle_event (Scroll 301) initial_page)
   \<and> \<not> button_visible (handle_event (Scroll 300) (handle_event (Scroll 301) initial_page))"
  using wf_initial scroll_button_visibility [OF wf_initial, of 301]
    scroll_button_visibility [OF wf_handle_event [OF wf_initial], of 300 "Scroll 301"]
  by simp


section \<open>Login form\<close>

text \<open>
  A login is followed through its two timers. The pending login timers, the
  storage and the location of a page are compared with those of the page
  \<open>s0\<close> on which the form was submitted at time \<open>c\<close>: until the first
  timer runs nothing has changed (\<open>Processing\<close>), then the identifier is
  stored (\<open>Stored\<close>), then the URL is assigned unless
  \<^verbatim>\<open>encodeURIComponent\<close> throws (\<open>Redirected\<close>).
\<close>


fun is_submit :: "event \<Rightarrow> bool" where
  "is_submit Submit = True"
| "is_submit e = False"

fun is_login_callback :: "callback \<Rightarrow> bool" where
  "is_login_callback (LoginSuccess uid) = True"
| "is_login_callback (LoginRedirect uid) = True"
| "is_login_callback cb = False"

definition login_timers :: "page \<Rightarrow> timer list" where
  "login_timers s = filter (\<lambda>tm. is_login_callback (callback tm)) (timers s)"

definition login_view :: "page \<Rightarrow> (nat \<times> callback) list" where
  "login_view s = map (\<lambda>tm. (due tm, callback tm)) (login_timers s)"

datatype login_stage = Processing | Stored | Redirected

definition redirect_target :: "jsstring \<Rightarrow> page \<Rightarrow> jsstring option" where
  "redirect_target uid s0 =
     (case encodeURIComponent uid of
        Inl e \<Rightarrow> location_href s0
      | Inr q \<Rightarrow> Some (REDIRECT_URL @ q))"

fun stage_timers :: "nat \<Rightarrow> jsstring \<Rightarrow> login_stage \<Rightarrow> (nat \<times> callback) list" where
  "stage_timers c uid Processing = [(c + 500, LoginSuccess uid)]"
| "stage_timers c uid Stored = [(c + 1000, LoginRedirect uid)]"
| "stage_timers c uid Redirected = []"

fun stage_storage :: "jsstring \<Rightarrow> page \<Rightarrow> login_stage \<Rightarrow> (jsstring \<rightharpoonup> jsstring)" where
  "stage_storage uid s0 Processing = localStorage s0"
| "stage_storage uid s0 Stored = (localStorage s0)(STORAGE_KEY \<mapsto> uid)"
| "stage_storage uid s0 Redirected = (localStorage s0)(STORAGE_KEY \<mapsto> uid)"

fun stage_href :: "jsstring \<Rightarrow> page \<Rightarrow> login_stage \<Rightarrow> jsstring option" where
  "stage_href uid s0 Processing = location_href s0"
| "stage_href uid s0 Stored = location_href s0"
| "stage_href uid s0 Redirected = redirect_target uid s0"

definition login_phase :: "nat \<Rightarrow> jsstring \<Rightarrow> page \<Rightarrow> login_stage \<Rightarrow> page \<Rightarrow> bool" where
  "login_phase c uid s0 k s \<longleftrightarrow>
     wf_page s \<and> login_view s = stage_timers c uid k
     \<and> localStorage s = stage_storage uid s0 k \<and> location_href s = stage_href uid s0 k"

definition stage_at :: "nat \<Rightarrow> nat \<Rightarrow> login_stage" where
  "stage_at c t = (if t < c + 500 then Processing else if t < c + 1000 then Stored else Redirected)"

lemma login_timers_clearTimeout:
  assumes "wf_page s"
  shows "login_timers (clearTimeout (debounce_timeout s) s) = login_timers s"
proof (cases "debounce_timeout s")
  case None
  then show ?thesis by (simp add: clearTimeout_def)
next
  case (Some i)
  have "\<And>u. u \<in> set (timers s) \<Longrightarrow> is_login_callback (callback u) \<Longrightarrow> timer_id u \<noteq> i"
    using assms Some by (auto simp: wf_page_def timer_ok_def)
  then have "filter (\<lambda>tm. is_login_callback (callback tm)) (filter (\<lambda>u. timer_id u \<noteq> i) (timers s))
             = filter (\<lambda>tm. is_login_callback (callback tm)) (timers s)"
    by (auto intro: filter_cong)
  then show ?thesis using Some by (simp add: login_timers_def timers_clearTimeout)
qed

lemma run_callback_other:
  assumes "wf_page s" and "\<not> is_login_callback cb"
  shows "login_timers (run_callback cb s) = login_timers s
         \<and> localStorage (run_callback cb s) = localStorage s
         \<and> location_href (run_callback cb s) = location_href s"
proof (cases cb)
  case (LoginSuccess uid)
  then show ?thesis using assms(2) by simp
next
  case (LoginRedirect uid)
  then show ?thesis using assms(2) by simp
next
  case (NotificationTimeout n)
  then show ?thesis
    by (simp add: run_callback_def notification_timeout_def login_timers_def)
next
  case (NotificationRemove n)
  then show ?thesis
    by (simp add: run_callback_def notification_remove_def login_timers_def)
next
  case DebounceLater
  then show ?thesis
    using login_timers_clearTimeout [OF assms(1)]
    by (simp add: run_callback_def debounce_later_def)
qed


lemma login_timers_pop:
  "login_timers (pop_timer tm s) = remove1 tm (login_timers s)"
  by (simp add: login_timers_def filter_remove1)

lemma fire_other:
  assumes "wf_page s" and "next_timer s = Some tm" and "\<not> is_login_callback (callback tm)"
  shows "login_timers (fire tm s) = login_timers s
         \<and> localStorage (fire tm s) = localStorage s
         \<and> location_href (fire tm s) = location_href s"
proof -
  have wp: "wf_page (pop_timer tm s)" using assms(1,2) by (rule wf_pop_timer)
  have "tm \<notin> set (login_timers s)" using assms(3) by (simp add: login_timers_def)
  then have lt: "login_timers (pop_timer tm s) = login_timers s"
    by (simp add: login_timers_pop remove1_idem)
  show ?thesis
    using run_callback_other [OF wp assms(3)] lt by (simp add: fire_def)
qed

lemma login_phase_fire_other:
  assumes "login_phase c uid s0 k s" and "next_timer s = Some tm"
    and "\<not> is_login_callback (callback tm)"
  shows "login_phase c uid s0 k (fire tm s)"
proof -
  have w: "wf_page s" using assms(1) by (simp add: login_phase_def)
  have "wf_page (fire tm s)" using w assms(2) by (rule wf_fire)
  then show ?thesis
    using fire_other [OF w assms(2,3)] assms(1)
    by (simp add: login_phase_def login_view_def)
qed

lemma login_view_single:
  assumes "login_view s = [(d, cb)]" and "tm \<in> set (timers s)" and "is_login_callback (callback tm)"
  shows "login_timers s = [tm]" and "due tm = d" and "callback tm = cb"
proof -
  obtain x where x: "login_timers s = [x]"
    using assms(1) by (auto simp: login_view_def)
  have "tm \<in> set (login_timers s)" using assms(2,3) by (simp add: login_timers_def)
  then have "x = tm" using x by simp
  then show "login_timers s = [tm]" using x by simp
  then show "due tm = d" and "callback tm = cb" using assms(1) by (simp_all add: login_view_def)
qed

lemma login_timers_showNotification [simp]:
  "login_timers (showNotification msg ty s) = login_timers s"
  by (simp add: login_timers_def)

lemma login_phase_fire_login:
  assumes "login_phase c uid s0 k s" and "next_timer s = Some tm"
    and "is_login_callback (callback tm)"
  shows "(k = Processing \<and> due tm = c + 500 \<and> login_phase c uid s0 Stored (fire tm s))
         \<or> (k = Stored \<and> due tm = c + 1000 \<and> login_phase c uid s0 Redirected (fire tm s))"
proof -
  have w: "wf_page s" using assms(1) by (simp add: login_phase_def)
  have wf': "wf_page (fire tm s)" using w assms(2) by (rule wf_fire)
  have clk: "clock (pop_timer tm s) = due tm" using w assms(2) by (rule wf_pop_timer)
  have mem: "tm \<in> set (timers s)" using assms(2) by (rule next_timer_mem)
  show ?thesis
  proof (cases k)
    case Processing
    then have v: "login_view s = [(c + 500, LoginSuccess uid)]"
      using assms(1) by (simp add: login_phase_def)
    note one = login_view_single [OF v mem assms(3)]
    have "login_timers (pop_timer tm s) = []" using one(1) by (simp add: login_timers_pop)
    then have "login_view (fire tm s) = [(c + 1000, LoginRedirect uid)]"
      using one(2,3) clk
      by (simp add: fire_def run_callback_def login_success_def Let_def login_view_def
            login_timers_def)
    moreover have "localStorage (fire tm s) = (localStorage s0)(STORAGE_KEY \<mapsto> uid)"
      using one(3) assms(1) Processing
      by (simp add: fire_def run_callback_def login_success_def Let_def login_phase_def)
    moreover have "location_href (fire tm s) = location_href s0"
      using one(3) assms(1) Processing
      by (simp add: fire_def run_callback_def login_success_def Let_def login_phase_def)
    ultimately show ?thesis using Processing one(2) wf' by (simp add: login_phase_def)
  next
    case Stored
    then have v: "login_view s = [(c + 1000, LoginRedirect uid)]"
      using assms(1) by (simp add: login_phase_def)
    note one = login_view_single [OF v mem assms(3)]
    have "login_timers (pop_timer tm s) = []" using one(1) by (simp add: login_timers_pop)
    then have "login_view (fire tm s) = []"
      using one(3)
      by (simp add: fire_def run_callback_def login_redirect_def login_view_def
            login_timers_def split: sum.splits)
    moreover have "localStorage (fire tm s) = (localStorage s0)(STORAGE_KEY \<mapsto> uid)"
      using one(3) assms(1) Stored
      by (simp add: fire_def run_callback_def login_redirect_def login_phase_def
            split: sum.splits)
    moreover have "location_href (fire tm s) = redirect_target uid s0"
      using one(3) assms(1) Stored
      by (simp add: fire_def run_callback_def login_redirect_def login_phase_def
            redirect_target_def split: sum.splits)
    ultimately show ?thesis using Stored one(2) wf' by (simp add: login_phase_def)
  next
    case Redirected
    then have "login_timers s = []" using assms(1) by (simp add: login_phase_def login_view_def)
    then have False using mem assms(3) by (auto simp: login_timers_def filter_empty_conv)
    then show ?thesis ..
  qed
qed


lemma login_view_set_clock [simp]: "login_view (s\<lparr>clock := x\<rparr>) = login_view s"
  by (simp add: login_view_def login_timers_def)

lemma login_view_pending:
  assumes "login_view s = (d, cb) # rest"
  shows "\<exists>u\<in>set (timers s). due u = d"
proof -
  obtain x xs where x: "login_timers s = x # xs" "due x = d"
    using assms by (auto simp: login_view_def)
  then have "x \<in> set (login_timers s)" by simp
  then have "x \<in> set (timers s)" by (simp add: login_timers_def)
  then show ?thesis using x(2) by blast
qed

lemma login_phase_submit:
  assumes "wf_page s" and "login_timers s = []" and "client_id_value s \<noteq> []"
  shows "login_phase (clock s) (client_id_value s) s Processing (login_submit s)"
proof -
  have "wf_page (login_submit s)" using assms(1) by (rule wf_login_submit)
  moreover have "login_view (login_submit s) = [(clock s + 500, LoginSuccess (client_id_value s))]"
    using assms(2,3) by (simp add: login_submit_def Let_def login_view_def login_timers_def)
  moreover have "localStorage (login_submit s) = localStorage s"
    and "location_href (login_submit s) = location_href s"
    by (simp_all add: login_submit_def Let_def)
  ultimately show ?thesis by (simp add: login_phase_def)
qed

lemma login_timeline_from:
  assumes "login_phase c uid s0 k0 s"
    and "k0 = Stored \<longrightarrow> c + 500 \<le> t" and "k0 = Redirected \<longrightarrow> c + 1000 \<le> t"
  shows "login_phase c uid s0 (stage_at c t) (advance_to t s)"
proof -
  let ?P = "\<lambda>s'. \<exists>k. login_phase c uid s0 k s'
                  \<and> (k = Stored \<longrightarrow> c + 500 \<le> t) \<and> (k = Redirected \<longrightarrow> c + 1000 \<le> t)"
  show ?thesis
  proof (rule advance_to_rule [where P = ?P])
    show "?P s" using assms by blast
  next
    fix s' tm
    assume p: "?P s'" and nt: "next_timer s' = Some tm" and d: "due tm \<le> t"
    from p obtain k where k: "login_phase c uid s0 k s'"
      "k = Stored \<longrightarrow> c + 500 \<le> t" "k = Redirected \<longrightarrow> c + 1000 \<le> t" by blast
    show "?P (fire tm s')"
    proof (cases "is_login_callback (callback tm)")
      case False
      then have "login_phase c uid s0 k (fire tm s')"
        using k(1) nt by (simp add: login_phase_fire_other)
      then show ?thesis using k(2,3) by blast
    next
      case True
      then show ?thesis
        using login_phase_fire_login [OF k(1) nt True] d by auto
    qed
  next
    fix s'
    assume p: "?P s'" and late: "\<forall>u\<in>set (timers s'). t < due u"
    from p obtain k where k: "login_phase c uid s0 k s'"
      "k = Stored \<longrightarrow> c + 500 \<le> t" "k = Redirected \<longrightarrow> c + 1000 \<le> t" by blast
    have w: "wf_page (s'\<lparr>clock := max (clock s') t\<rparr>)"
      using k(1) late by (simp add: login_phase_def wf_set_clock)
    have st: "stage_at c t = k"
    proof (cases k)
      case Processing
      then have "login_view s' = (c + 500, LoginSuccess uid) # []"
        using k(1) by (simp add: login_phase_def)
      then have "\<exists>u\<in>set (timers s'). due u = c + 500" by (rule login_view_pending)
      then have "t < c + 500" using late by auto
      then show ?thesis using Processing by (simp add: stage_at_def)
    next
      case Stored
      then have "login_view s' = (c + 1000, LoginRedirect uid) # []"
        using k(1) by (simp add: login_phase_def)
      then have "\<exists>u\<in>set (timers s'). due u = c + 1000" by (rule login_view_pending)
      then have "t < c + 1000" using late by auto
      then show ?thesis using Stored k(2) by (simp add: stage_at_def)
    next
      case Redirected
      then show ?thesis using k(3) by (simp add: stage_at_def)
    qed
    show "login_phase c uid s0 (stage_at c t) (s'\<lparr>clock := max (clock s') t\<rparr>)"
      using k(1) w st by (simp add: login_phase_def)
  qed
qed

lemma login_timers_click [simp]: "login_timers (click tg s) = login_timers s"
  by (cases tg)
     (simp_all add: login_timers_def hamburger_click_def nav_link_click_def
        notification_close_def)

lemma click_storage [simp]:
  "localStorage (click tg s) = localStorage s"
  "location_href (click tg s) = location_href s"
  by (cases tg; simp add: hamburger_click_def nav_link_click_def notification_close_def)+

lemma login_phase_scroll:
  assumes "wf_page s"
  shows "login_timers (handle_event (Scroll y) s) = login_timers s"
    and "localStorage (handle_event (Scroll y) s) = localStorage s"
    and "location_href (handle_event (Scroll y) s) = location_href s"
proof -
  let ?s1 = "scroll_to_top_scroll (header_scroll (s\<lparr>scrollY := y\<rparr>))"
  have "wf_page (s\<lparr>scrollY := y\<rparr>)"
    using assms by (simp add: wf_page_def timer_ok_def is_notification_def)
  then have w: "wf_page ?s1" by (simp add: wf_header_scroll wf_scroll_to_top_scroll)
  have t: "login_timers ?s1 = login_timers s" by (simp add: login_timers_def)
  have "login_timers (debouncedScroll ?s1) = login_timers (clearTimeout (debounce_timeout ?s1) ?s1)"
    by (simp add: debouncedScroll_def Let_def login_timers_def)
  then show "login_timers (handle_event (Scroll y) s) = login_timers s"
    using login_timers_clearTimeout [OF w] t by simp
  show "localStorage (handle_event (Scroll y) s) = localStorage s"
    by (simp add: debouncedScroll_def Let_def scroll_to_top_scroll_def
          createScrollToTopButton_def header_scroll_def split: option.splits)
  show "location_href (handle_event (Scroll y) s) = location_href s"
    by (simp add: debouncedScroll_def Let_def scroll_to_top_scroll_def
          createScrollToTopButton_def header_scroll_def split: option.splits)
qed

lemma login_phase_event:
  assumes "login_phase c uid s0 (stage_at c (clock s)) s" and "\<not> is_submit e"
  shows "login_phase c uid s0 (stage_at c (clock (handle_event e s))) (handle_event e s)"
proof -
  have w: "wf_page s" using assms(1) by (simp add: login_phase_def)
  have w': "wf_page (handle_event e s)" using w by (rule wf_handle_event)
  show ?thesis
  proof (cases e)
    case (Click tg)
    then show ?thesis using assms(1) w' by (simp add: login_phase_def login_view_def)
  next
    case (Scroll y)
    have "clock (handle_event (Scroll y) s) = clock s" by simp
    then show ?thesis
      using assms(1) w' login_phase_scroll [OF w, of y] Scroll
      by (simp add: login_phase_def login_view_def)
  next
    case (Input v)
    then show ?thesis
      using assms(1) w' by (simp add: login_phase_def login_view_def login_timers_def)
  next
    case Submit
    then show ?thesis using assms(2) by simp
  next
    case (Wait d)
    have "login_phase c uid s0 (stage_at c (clock s + d)) (advance_to (clock s + d) s)"
      using assms(1) by (rule login_timeline_from) (auto simp: stage_at_def split: if_splits)
    then show ?thesis using Wait by (simp add: clock_advance_to)
  qed
qed

lemma login_phase_run:
  assumes "login_phase c uid s0 (stage_at c (clock s)) s" and "\<forall>e\<in>set es. \<not> is_submit e"
  shows "login_phase c uid s0 (stage_at c (clock (run es s))) (run es s)"
  using assms
proof (induction es arbitrary: s)
  case Nil
  then show ?case by simp
next
  case (Cons e es)
  have "login_phase c uid s0 (stage_at c (clock (handle_event e s))) (handle_event e s)"
    using Cons.prems by (simp add: login_phase_event)
  then show ?case using Cons.IH Cons.prems(2) by simp
qed

lemma login_succeeds_run:
  assumes "wf_page s" and "login_timers s = []" and "client_id_value s \<noteq> []"
    and "\<forall>e\<in>set es. \<not> is_submit e"
  shows "localStorage (run (Submit # es) s)
           = (if elapsed es < 500 then localStorage s
              else (localStorage s)(STORAGE_KEY \<mapsto> client_id_value s))"
    and "location_href (run (Submit # es) s)
           = (if elapsed es < 1000 then location_href s
              else redirect_target (client_id_value s) s)"
proof -
  have "login_phase (clock s) (client_id_value s) s (stage_at (clock s) (clock (login_submit s)))
          (login_submit s)"
    using login_phase_submit [OF assms(1,2,3)] by (simp add: stage_at_def)
  then have "login_phase (clock s) (client_id_value s) s
               (stage_at (clock s) (clock (run es (login_submit s)))) (run es (login_submit s))"
    using assms(4) by (rule login_phase_run)
  then have p: "login_phase (clock s) (client_id_value s) s
               (stage_at (clock s) (clock s + elapsed es)) (run es (login_submit s))"
    by (simp add: clock_run)
  show "localStorage (run (Submit # es) s)
           = (if elapsed es < 500 then localStorage s
              else (localStorage s)(STORAGE_KEY \<mapsto> client_id_value s))"
    using p by (simp add: login_phase_def stage_at_def)
  show "location_href (run (Submit # es) s)
           = (if elapsed es < 1000 then location_href s
              else redirect_target (client_id_value s) s)"
    using p by (simp add: login_phase_def stage_at_def)
qed


lemma quiet_login:
  assumes "wf_page s" and "login_timers s = []"
  shows "login_timers (advance_to t s) = []
         \<and> localStorage (advance_to t s) = localStorage s
         \<and> location_href (advance_to t s) = location_href s"
proof -
  let ?P = "\<lambda>s'. wf_page s' \<and> login_timers s' = []
                 \<and> localStorage s' = localStorage s \<and> location_href s' = location_href s"
  show ?thesis
  proof (rule advance_to_rule [where P = ?P])
    show "?P s" using assms by simp
  next
    fix s' tm
    assume p: "?P s'" and nt: "next_timer s' = Some tm"
    have "tm \<in> set (timers s')" using nt by (rule next_timer_mem)
    then have nl: "\<not> is_login_callback (callback tm)"
      using p by (auto simp: login_timers_def filter_empty_conv)
    have "wf_page (fire tm s')" using p nt by (simp add: wf_fire)
    then show "?P (fire tm s')" using fire_other [OF _ nt nl] p by simp
  next
    fix s'
    assume "?P s'"
    then show "login_timers (s'\<lparr>clock := max (clock s') t\<rparr>) = []
         \<and> localStorage (s'\<lparr>clock := max (clock s') t\<rparr>) = localStorage s
         \<and> location_href (s'\<lparr>clock := max (clock s') t\<rparr>) = location_href s"
      by (simp add: login_timers_def)
  qed
qed


lemma quiet_event:
  assumes "wf_page s" and "login_timers s = []" and "\<not> is_submit e"
  shows "login_timers (handle_event e s) = []
         \<and> localStorage (handle_event e s) = localStorage s
         \<and> location_href (handle_event e s) = location_href s"
proof (cases e)
  case (Click tg)
  then show ?thesis using assms(2) by simp
next
  case (Scroll y)
  then show ?thesis using login_phase_scroll [OF assms(1), of y] assms(2) by simp
next
  case (Input v)
  then show ?thesis using assms(2) by (simp add: login_timers_def)
next
  case Submit
  then show ?thesis using assms(3) by simp
next
  case (Wait d)
  then show ?thesis using quiet_login [OF assms(1,2)] by simp
qed

lemma quiet_run:
  assumes "wf_page s" and "login_timers s = []" and "\<forall>e\<in>set es. \<not> is_submit e"
  shows "login_timers (run es s) = []
         \<and> localStorage (run es s) = localStorage s
         \<and> location_href (run es s) = location_href s"
  using assms
proof (induction es arbitrary: s)
  case Nil
  then show ?case by simp
next
  case (Cons e es)
  have q: "login_timers (handle_event e s) = []
           \<and> localStorage (handle_event e s) = localStorage s
           \<and> location_href (handle_event e s) = location_href s"
    using Cons.prems by (simp add: quiet_event)
  have "wf_page (handle_event e s)" using Cons.prems(1) by (rule wf_handle_event)
  then show ?case using Cons.IH [of "handle_event e s"] q Cons.prems(3) by simp
qed

lemma login_submit_empty:
  "client_id_value s = [] \<Longrightarrow>
   login_submit s = showNotification (js ''Por favor, preencha todos os campos.'') (js ''error'') s"
  by (simp add: login_submit_def)

lemma error_token:
  "js ''notification-error'' \<in> set (class_tokens (js ''notification notification-'' @ js ''error''))"
  by (simp add: class_tokens_def js_def is_ascii_ws_def)

text \<open>
  Claim C2. A submit with an empty field shows the error notification in
  place of any earlier one, writes nothing to the storage, assigns no URL
  and registers no login timer; with no earlier login in progress the storage
  and the location stay as they were through everything that follows, short
  of another submit.
\<close>

theorem empty_submit_rejected:
  assumes "client_id_value s = []" and "wf_page s"
  shows "filter (is_notification (handle_event Submit s)) (body (handle_event Submit s))
           = [next_node_id s]
         \<and> message (nodes (handle_event Submit s) (next_node_id s))
           = js ''Por favor, preencha todos os campos.''
         \<and> js ''notification-error'' \<in> set (classes (nodes (handle_event Submit s) (next_node_id s)))
         \<and> localStorage (handle_event Submit s) = localStorage s
         \<and> location_href (handle_event Submit s) = location_href s
         \<and> login_timers (handle_event Submit s) = login_timers s
         \<and> (login_timers s = [] \<and> (\<forall>e\<in>set es. \<not> is_submit e) \<longrightarrow>
              localStorage (run (Submit # es) s) = localStorage s
              \<and> location_href (run (Submit # es) s) = location_href s)"
proof -
  let ?s' = "showNotification (js ''Por favor, preencha todos os campos.'') (js ''error'') s"
  have e: "handle_event Submit s = ?s'" using assms(1) by (simp add: login_submit_empty)
  have fresh: "next_node_id s \<notin> set (body s)" using assms(2) by (auto simp: wf_page_def)
  have "filter (is_notification ?s') (filter (\<lambda>n. \<not> is_notification s n) (body s)) = []"
    using fresh by (auto simp: filter_empty_conv is_notification_showNotification)
  then have one: "filter (is_notification ?s') (body ?s') = [next_node_id s]"
    by (simp add: is_notification_showNotification)
  have w: "wf_page ?s'" using assms(2) by (rule wf_showNotification)
  have quiet: "login_timers s = [] \<and> (\<forall>e\<in>set es. \<not> is_submit e) \<longrightarrow>
          localStorage (run es ?s') = localStorage s \<and> location_href (run es ?s') = location_href s"
  proof
    assume a: "login_timers s = [] \<and> (\<forall>e\<in>set es. \<not> is_submit e)"
    then have "login_timers ?s' = []" by simp
    then show "localStorage (run es ?s') = localStorage s
             \<and> location_href (run es ?s') = location_href s"
      using quiet_run [OF w, of es] a by simp
  qed
  have r: "run (Submit # es) s = run es ?s'" using e by simp
  show ?thesis
    unfolding r e using one quiet error_token by (simp add: nodes_showNotification)
qed

lemma Input_page:
  "wf_page (initial_page\<lparr>client_id_value := v\<rparr>)"
  "login_timers (initial_page\<lparr>client_id_value := v\<rparr>) = []"
  "client_id_value (initial_page\<lparr>client_id_value := v\<rparr>) = v"
  "clock (initial_page\<lparr>client_id_value := v\<rparr>) = 0"
  "localStorage (initial_page\<lparr>client_id_value := v\<rparr>) = Map.empty"
  "location_href (initial_page\<lparr>client_id_value := v\<rparr>) = None"
  using wf_handle_event [OF wf_initial, of "Input v"]
  by (simp_all add: initial_page_def login_timers_def)

theorem empty_submit_rejected_witness:
  "client_id_value initial_page = [] \<and> wf_page initial_page \<and> login_timers initial_page = []
   \<and> filter (is_notification (run [Submit] initial_page)) (body (run [Submit] initial_page)) = [0]
   \<and> localStorage (run [Submit, Wait 700, Scroll 20, Wait 60000] initial_page) = Map.empty
   \<and> location_href (run [Submit, Wait 700, Scroll 20, Wait 60000] initial_page) = None"
proof -
  have a: "client_id_value initial_page = []" by (simp add: initial_page_def)
  have l: "login_timers initial_page = []" by (simp add: initial_page_def login_timers_def)
  have i: "next_node_id initial_page = 0" "localStorage initial_page = Map.empty"
    "location_href initial_page = None"
    by (simp_all add: initial_page_def)
  show ?thesis
    using a l wf_initial
      empty_submit_rejected [OF a wf_initial, of "[Wait 700, Scroll 20, Wait 60000]"]
    by (simp add: i)
qed

lemmas enc_defs = js_def uri_unreserved_def is_alnum_def is_lead_surrogate_def
  is_trail_surrogate_def percent_escape_def percent_octet_def utf8_octets_def hex_digit_def
  surrogate_pair_cp_def

lemma encodeURIComponent_throws:
  "\<not> well_formed_utf16 uid \<Longrightarrow> encodeURIComponent uid = Inl URIError"
  using encodeURIComponent_defined [of uid]
  by (cases "encodeURIComponent uid") (auto intro: js_error.exhaust)

text \<open>
  An identifier that holds an unpaired surrogate is stored like any other,
  but the callback of the second timer throws before it assigns the URL: the
  location stays as it was.
\<close>

lemma login_ill_formed_not_redirected:
  assumes "wf_page s" and "login_timers s = []" and "client_id_value s = uid"
    and "uid \<noteq> []" and "\<not> well_formed_utf16 uid" and "\<forall>e\<in>set es. \<not> is_submit e"
  shows "localStorage (run (Submit # es) s)
           = (if elapsed es < 500 then localStorage s
              else (localStorage s)(STORAGE_KEY \<mapsto> uid))"
    and "location_href (run (Submit # es) s) = location_href s"
proof -
  have ne: "client_id_value s \<noteq> []" using assms(3,4) by simp
  have "redirect_target uid s = location_href s"
    using encodeURIComponent_throws [OF assms(5)] by (simp add: redirect_target_def)
  then show "localStorage (run (Submit # es) s)
           = (if elapsed es < 500 then localStorage s
              else (localStorage s)(STORAGE_KEY \<mapsto> uid))"
    and "location_href (run (Submit # es) s) = location_href s"
    using login_succeeds_run [OF assms(1,2) ne assms(6)] assms(3) by simp_all
qed

text \<open>
  Claim C1. The claim fails on the code at the identifier that is one
  unpaired surrogate, \<^verbatim>\<open>"\uD800"\<close>: it is not empty, it is stored under
  the key 500 ms after the submit, and no URL is assigned, neither after
  1000 ms nor later, because \<^verbatim>\<open>encodeURIComponent\<close> throws in the callback
  that was to redirect.
\<close>

theorem login_unpaired_surrogate_not_redirected:
  "client_id_value (run [Input [0xD800]] initial_page) \<noteq> []
   \<and> localStorage (run [Input [0xD800], Submit, Wait 1000] initial_page) STORAGE_KEY
       = Some [0xD800]
   \<and> location_href (run [Input [0xD800], Submit, Wait 1000] initial_page) = None
   \<and> location_href (run [Input [0xD800], Submit, Wait 60000] initial_page) = None"
proof -
  let ?s = "initial_page\<lparr>client_id_value := [0xD800]\<rparr>"
  have ne: "client_id_value ?s \<noteq> []" by (simp add: Input_page)
  have enc: "encodeURIComponent [0xD800] = Inl URIError" by (simp add: enc_defs)
  have tgt: "redirect_target (client_id_value ?s) ?s = None"
    unfolding redirect_target_def Input_page enc by simp
  note tl = login_succeeds_run [OF Input_page(1) Input_page(2) ne]
  have "localStorage (run [Submit, Wait 1000] ?s) STORAGE_KEY = Some [0xD800]"
    using tl(1) [of "[Wait 1000]"] by (simp add: Input_page)
  moreover have "location_href (run [Submit, Wait 1000] ?s) = None"
    using tl(2) [of "[Wait 1000]"] tgt by (simp add: Input_page)
  moreover have "location_href (run [Submit, Wait 60000] ?s) = None"
    using tl(2) [of "[Wait 60000]"] tgt by (simp add: Input_page)
  ultimately show ?thesis using ne by (simp add: Input_page)
qed

text \<open>
  For every non-empty identifier in which every surrogate code unit is
  paired the login runs to its end: with no earlier login in progress, and
  whatever else happens on the page short of another submit, once 500 ms
  have passed since the submit the identifier is stored under the key
  \<^verbatim>\<open>cloud25f-user-id\<close> and no other key has changed, and once 1000 ms have
  passed the script has assigned the fixed URL followed by the identifier
  encoded by \<^verbatim>\<open>encodeURIComponent\<close>; before those times the storage and the
  location are as they were.
\<close>

lemma login_stores_then_redirects:
  assumes "wf_page s" and "login_timers s = []" and "client_id_value s = uid"
    and "uid \<noteq> []" and "well_formed_utf16 uid" and "\<forall>e\<in>set es. \<not> is_submit e"
  shows "\<exists>q. encodeURIComponent uid = Inr q
         \<and> localStorage (run (Submit # es) s)
             = (if elapsed es < 500 then localStorage s
                else (localStorage s)(STORAGE_KEY \<mapsto> uid))
         \<and> location_href (run (Submit # es) s)
             = (if elapsed es < 1000 then location_href s else Some (REDIRECT_URL @ q))"
proof -
  obtain q where q: "encodeURIComponent uid = Inr q"
    using assms(5) encodeURIComponent_defined [of uid] by blast
  have ne: "client_id_value s \<noteq> []" using assms(3,4) by simp
  have "redirect_target uid s = Some (REDIRECT_URL @ q)"
    using q by (simp add: redirect_target_def)
  then show ?thesis
    using q login_succeeds_run [OF assms(1,2) ne assms(6)] assms(3) by simp
qed

lemma login_stores_then_redirects_example:
  "wf_page (run [Input (js ''a b'')] initial_page)
   \<and> login_timers (run [Input (js ''a b'')] initial_page) = []
   \<and> client_id_value (run [Input (js ''a b'')] initial_page) = js ''a b''
   \<and> js ''a b'' \<noteq> [] \<and> well_formed_utf16 (js ''a b'')
   \<and> localStorage (run [Input (js ''a b''), Submit, Wait 499] initial_page) = Map.empty
   \<and> localStorage (run [Input (js ''a b''), Submit, Wait 500] initial_page)
       = [STORAGE_KEY \<mapsto> js ''a b'']
   \<and> location_href (run [Input (js ''a b''), Submit, Wait 999] initial_page) = None
   \<and> location_href
        (run [Input (js ''a b''), Submit, Wait 400, Scroll 350, Input (js ''c''), Wait 600]
           initial_page)
       = Some (js ''http://alb-cloud25f-823380760.us-east-2.elb.amazonaws.com?id=a%20b'')"
proof -
  have ne: "js ''a b'' \<noteq> []" by (simp add: js_def)
  have wfu: "well_formed_utf16 (js ''a b'')"
    by (simp add: js_def is_lead_surrogate_def is_trail_surrogate_def)
  have enc: "encodeURIComponent (js ''a b'') = Inr (js ''a%20b'')" by (simp add: enc_defs)
  have url: "REDIRECT_URL @ js ''a%20b''
             = js ''http://alb-cloud25f-823380760.us-east-2.elb.amazonaws.com?id=a%20b''"
    by (simp add: REDIRECT_URL_def js_def)
  note th = login_stores_then_redirects [OF Input_page(1) Input_page(2) Input_page(3) ne wfu]
  have a: "\<forall>e\<in>set [Wait 499]. \<not> is_submit e" "\<forall>e\<in>set [Wait 500]. \<not> is_submit e"
    "\<forall>e\<in>set [Wait 999]. \<not> is_submit e"
    "\<forall>e\<in>set [Wait 400, Scroll 350, Input (js ''c''), Wait 600]. \<not> is_submit e"
    by simp_all
  show ?thesis
    using ne wfu th [OF a(1)] th [OF a(2)] th [OF a(3)] th [OF a(4)] enc url
    by (simp add: Input_page)
qed

text \<open>
  Claim C9. The validation rejects the empty string only: a submit registers
  the login timer exactly when the field is not empty. An identifier made of
  white space alone is therefore stored and sent in the URL like any other.
\<close>

theorem whitespace_identifier_accepted:
  assumes "wf_page s" and "login_timers s = []" and "client_id_value s = uid"
    and "\<forall>c\<in>set uid. is_js_whitespace c" and "\<forall>e\<in>set es. \<not> is_submit e"
  shows "(login_timers (handle_event Submit s) = [] \<longleftrightarrow> uid = [])
         \<and> (uid \<noteq> [] \<and> 1000 \<le> elapsed es \<longrightarrow>
              (\<exists>q. encodeURIComponent uid = Inr q
                 \<and> localStorage (run (Submit # es) s) STORAGE_KEY = Some uid
                 \<and> location_href (run (Submit # es) s) = Some (REDIRECT_URL @ q)))"
proof -
  have "well_formed_utf16 uid"
    using assms(4) whitespace_not_surrogate by (auto intro: no_surrogates_well_formed)
  then obtain q where q: "encodeURIComponent uid = Inr q"
    using encodeURIComponent_defined [of uid] by blast
  have reg: "login_timers (handle_event Submit s) = [] \<longleftrightarrow> uid = []"
    using assms(2,3) by (simp add: login_submit_def Let_def login_timers_def)
  have late: "\<exists>q. encodeURIComponent uid = Inr q
                 \<and> localStorage (run (Submit # es) s) STORAGE_KEY = Some uid
                 \<and> location_href (run (Submit # es) s) = Some (REDIRECT_URL @ q)"
    if "uid \<noteq> []" and "1000 \<le> elapsed es"
  proof -
    have ne: "client_id_value s \<noteq> []" using that(1) assms(3) by simp
    have "redirect_target uid s = Some (REDIRECT_URL @ q)"
      using q by (simp add: redirect_target_def)
    then show ?thesis
      using q login_succeeds_run [OF assms(1,2) ne assms(5)] assms(3) that(2) by simp
  qed
  show ?thesis using reg late by blast
qed

theorem whitespace_identifier_accepted_witness:
  "wf_page (run [Input (js '' '')] initial_page)
   \<and> login_timers (run [Input (js '' '')] initial_page) = []
   \<and> client_id_value (run [Input (js '' '')] initial_page) = js '' ''
   \<and> js '' '' = [0x20] \<and> is_js_whitespace 0x20
   \<and> login_timers (run [Input (js '' ''), Submit] initial_page) \<noteq> []
   \<and> localStorage (run [Input (js '' ''), Submit, Wait 1000] initial_page) STORAGE_KEY
       = Some (js '' '')
   \<and> location_href (run [Input (js '' ''), Submit, Wait 1000] initial_page)
       = Some (js ''http://alb-cloud25f-823380760.us-east-2.elb.amazonaws.com?id=%20'')"
proof -
  have ws: "\<forall>c\<in>set (js '' ''). is_js_whitespace c" by (simp add: js_def is_js_whitespace_def)
  have ne: "js '' '' \<noteq> []" by (simp add: js_def)
  have enc: "encodeURIComponent (js '' '') = Inr (js ''%20'')" by (simp add: enc_defs)
  have url: "REDIRECT_URL @ js ''%20''
             = js ''http://alb-cloud25f-823380760.us-east-2.elb.amazonaws.com?id=%20''"
    by (simp add: REDIRECT_URL_def js_def)
  have a: "\<forall>e\<in>set [Wait 1000]. \<not> is_submit e" by simp
  note th = whitespace_identifier_accepted [OF Input_page(1) Input_page(2) Input_page(3) ws a]
  have sp: "js '' '' = [0x20]" "is_js_whitespace 0x20"
    by (simp_all add: js_def is_js_whitespace_def)
  show ?thesis
    using sp ne th enc url by (simp add: Input_page)
qed

section \<open>Lifetime of a notification\<close>

text \<open>
  A notification is followed through its two timers, for as long as no
  callback of a login replaces it: attached and still (\<open>Shown\<close>), attached
  and playing the exit animation (\<open>Leaving\<close>), detached (\<open>Gone\<close>).
  Two events cut its life short: a click on its close button, and a submit,
  which shows the next notification in its place.
\<close>

fun is_login_success :: "callback \<Rightarrow> bool" where
  "is_login_success (LoginSuccess uid) = True"
| "is_login_success cb = False"

fun dismisses :: "nat \<Rightarrow> event \<Rightarrow> bool" where
  "dismisses n Submit = True"
| "dismisses n (Click (OnNotificationClose m)) = (m = n)"
| "dismisses n e = False"

definition no_replacement :: "page \<Rightarrow> bool" where
  "no_replacement s \<longleftrightarrow> (\<forall>tm\<in>set (timers s). \<not> is_login_success (callback tm))"

definition node_timers :: "nat \<Rightarrow> page \<Rightarrow> timer list" where
  "node_timers n s = filter (\<lambda>tm. callback_node (callback tm) = Some n) (timers s)"

definition node_view :: "nat \<Rightarrow> page \<Rightarrow> (nat \<times> callback) list" where
  "node_view n s = map (\<lambda>tm. (due tm, callback tm)) (node_timers n s)"

definition SLIDE_OUT :: jsstring where
  "SLIDE_OUT = js ''slideIn 0.3s ease-out reverse''"

datatype toast_stage = Shown | Leaving | Gone

fun toast_timers :: "nat \<Rightarrow> nat \<Rightarrow> toast_stage \<Rightarrow> (nat \<times> callback) list" where
  "toast_timers c n Shown = [(c + 5000, NotificationTimeout n)]"
| "toast_timers c n Leaving = [(c + 5300, NotificationRemove n)]"
| "toast_timers c n Gone = []"

definition toast_phase :: "nat \<Rightarrow> nat \<Rightarrow> toast_stage \<Rightarrow> page \<Rightarrow> bool" where
  "toast_phase c n k s \<longleftrightarrow>
     wf_page s \<and> no_replacement s \<and> node_view n s = toast_timers c n k
     \<and> (n \<in> set (body s) \<longleftrightarrow> k \<noteq> Gone)
     \<and> animation (nodes s n) = (if k = Shown then [] else SLIDE_OUT)
     \<and> n < next_node_id s \<and> is_notification s n"

definition toast_stage_at :: "nat \<Rightarrow> nat \<Rightarrow> toast_stage" where
  "toast_stage_at c t =
     (if t < c + 5000 then Shown else if t < c + 5300 then Leaving else Gone)"

lemma node_timers_clearTimeout:
  assumes "wf_page s"
  shows "node_timers n (clearTimeout (debounce_timeout s) s) = node_timers n s"
proof (cases "debounce_timeout s")
  case None
  then show ?thesis by (simp add: clearTimeout_def)
next
  case (Some i)
  have "\<And>u. u \<in> set (timers s) \<Longrightarrow> callback_node (callback u) = Some n \<Longrightarrow> timer_id u \<noteq> i"
    using assms Some by (auto simp: wf_page_def timer_ok_def)
  then have "filter (\<lambda>tm. callback_node (callback tm) = Some n)
               (filter (\<lambda>u. timer_id u \<noteq> i) (timers s))
             = filter (\<lambda>tm. callback_node (callback tm) = Some n) (timers s)"
    by (auto intro: filter_cong)
  then show ?thesis using Some by (simp add: node_timers_def timers_clearTimeout)
qed

lemma no_replacement_clearTimeout:
  "no_replacement s \<Longrightarrow> no_replacement (clearTimeout h s)"
  by (cases h) (auto simp: no_replacement_def timers_clearTimeout)

lemma run_callback_foreign:
  assumes "wf_page s" and "no_replacement s" and "\<not> is_login_success cb"
    and "callback_node cb \<noteq> Some n"
  shows "node_timers n (run_callback cb s) = node_timers n s"
    and "n \<in> set (body (run_callback cb s)) \<longleftrightarrow> n \<in> set (body s)"
    and "animation (nodes (run_callback cb s) n) = animation (nodes s n)"
    and "no_replacement (run_callback cb s)"
    and "next_node_id (run_callback cb s) = next_node_id s"
    and "is_notification (run_callback cb s) n \<longleftrightarrow> is_notification s n"
proof -
  have "node_timers n (run_callback cb s) = node_timers n s
        \<and> (n \<in> set (body (run_callback cb s)) \<longleftrightarrow> n \<in> set (body s))
        \<and> animation (nodes (run_callback cb s) n) = animation (nodes s n)
        \<and> no_replacement (run_callback cb s)
        \<and> next_node_id (run_callback cb s) = next_node_id s
        \<and> (is_notification (run_callback cb s) n \<longleftrightarrow> is_notification s n)"
  proof (cases cb)
    case (LoginSuccess uid)
    then show ?thesis using assms(3) by simp
  next
    case (LoginRedirect uid)
    then show ?thesis
      using assms(2)
      by (simp add: run_callback_def login_redirect_def node_timers_def no_replacement_def
            is_notification_def split: sum.splits)
  next
    case (NotificationTimeout m)
    then show ?thesis
      using assms(2,4)
      by (simp add: run_callback_def notification_timeout_def node_timers_def
            no_replacement_def is_notification_def)
  next
    case (NotificationRemove m)
    then show ?thesis
      using assms(2,4)
      by (simp add: run_callback_def notification_remove_def node_timers_def
            no_replacement_def is_notification_def)
  next
    case DebounceLater
    then show ?thesis
      using node_timers_clearTimeout [OF assms(1)] no_replacement_clearTimeout [OF assms(2)]
      by (simp add: run_callback_def debounce_later_def is_notification_def)
  qed
  then show "node_timers n (run_callback cb s) = node_timers n s"
    and "n \<in> set (body (run_callback cb s)) \<longleftrightarrow> n \<in> set (body s)"
    and "animation (nodes (run_callback cb s) n) = animation (nodes s n)"
    and "no_replacement (run_callback cb s)"
    and "next_node_id (run_callback cb s) = next_node_id s"
    and "is_notification (run_callback cb s) n \<longleftrightarrow> is_notification s n"
    by simp_all
qed

lemma is_notification_pop [simp]: "is_notification (pop_timer tm s) n = is_notification s n"
  by (simp add: is_notification_def)

lemma node_timers_pop: "node_timers n (pop_timer tm s) = remove1 tm (node_timers n s)"
  by (simp add: node_timers_def filter_remove1)

lemma no_replacement_pop: "no_replacement s \<Longrightarrow> no_replacement (pop_timer tm s)"
  using set_remove1_subset [of tm "timers s"] by (auto simp: no_replacement_def)

lemma toast_phase_fire_foreign:
  assumes "toast_phase c n k s" and "next_timer s = Some tm"
    and "callback_node (callback tm) \<noteq> Some n"
  shows "toast_phase c n k (fire tm s)"
proof -
  have w: "wf_page s" and nr: "no_replacement s" using assms(1) by (simp_all add: toast_phase_def)
  have mem: "tm \<in> set (timers s)" using assms(2) by (rule next_timer_mem)
  have nls: "\<not> is_login_success (callback tm)" using nr mem by (simp add: no_replacement_def)
  have wp: "wf_page (pop_timer tm s)" using w assms(2) by (rule wf_pop_timer)
  have nrp: "no_replacement (pop_timer tm s)" using nr by (rule no_replacement_pop)
  have "tm \<notin> set (node_timers n s)" using assms(3) by (simp add: node_timers_def)
  then have nt: "node_timers n (pop_timer tm s) = node_timers n s"
    by (simp add: node_timers_pop remove1_idem)
  have "wf_page (fire tm s)" using w assms(2) by (rule wf_fire)
  then show ?thesis
    using run_callback_foreign [OF wp nrp nls assms(3)] nt assms(1)
    by (simp add: toast_phase_def fire_def node_view_def)
qed


lemma node_view_single:
  assumes "node_view n s = [(d, cb)]" and "tm \<in> set (timers s)"
    and "callback_node (callback tm) = Some n"
  shows "node_timers n s = [tm]" and "due tm = d" and "callback tm = cb"
proof -
  obtain x where x: "node_timers n s = [x]"
    using assms(1) by (auto simp: node_view_def)
  have "tm \<in> set (node_timers n s)" using assms(2,3) by (simp add: node_timers_def)
  then have "x = tm" using x by simp
  then show "node_timers n s = [tm]" using x by simp
  then show "due tm = d" and "callback tm = cb" using assms(1) by (simp_all add: node_view_def)
qed

lemma toast_phase_fire_own:
  assumes "toast_phase c n k s" and "next_timer s = Some tm"
    and "callback_node (callback tm) = Some n"
  shows "(k = Shown \<and> due tm = c + 5000 \<and> toast_phase c n Leaving (fire tm s))
         \<or> (k = Leaving \<and> due tm = c + 5300 \<and> toast_phase c n Gone (fire tm s))"
proof -
  have w: "wf_page s" and nr: "no_replacement s" using assms(1) by (simp_all add: toast_phase_def)
  have wf': "wf_page (fire tm s)" using w assms(2) by (rule wf_fire)
  have clk: "clock (pop_timer tm s) = due tm" using w assms(2) by (rule wf_pop_timer)
  have mem: "tm \<in> set (timers s)" using assms(2) by (rule next_timer_mem)
  have nrp: "no_replacement (pop_timer tm s)" using nr by (rule no_replacement_pop)
  have fresh: "n < next_node_id s" "NOTIFICATION \<in> set (classes (nodes s n))"
    using assms(1) by (simp_all add: toast_phase_def is_notification_def)
  show ?thesis
  proof (cases k)
    case Shown
    then have v: "node_view n s = [(c + 5000, NotificationTimeout n)]"
      and att: "n \<in> set (body s)"
      using assms(1) by (simp_all add: toast_phase_def)
    note one = node_view_single [OF v mem assms(3)]
    have "node_timers n (pop_timer tm s) = []" using one(1) by (simp add: node_timers_pop)
    then have "node_view n (fire tm s) = [(c + 5300, NotificationRemove n)]"
      using one(2,3) clk att
      by (simp add: fire_def run_callback_def notification_timeout_def node_view_def
            node_timers_def)
    moreover have "n \<in> set (body (fire tm s))"
      using one(3) att by (simp add: fire_def run_callback_def notification_timeout_def)
    moreover have "animation (nodes (fire tm s) n) = SLIDE_OUT"
      using one(3) att
      by (simp add: fire_def run_callback_def notification_timeout_def SLIDE_OUT_def)
    moreover have "no_replacement (fire tm s)"
      using one(3) nrp
      by (simp add: fire_def run_callback_def notification_timeout_def no_replacement_def)
    moreover have "n < next_node_id (fire tm s)" and "is_notification (fire tm s) n"
      using one(3) fresh
      by (simp_all add: fire_def run_callback_def notification_timeout_def is_notification_def)
    ultimately show ?thesis using Shown one(2) wf' by (simp add: toast_phase_def)
  next
    case Leaving
    then have v: "node_view n s = [(c + 5300, NotificationRemove n)]"
      and an: "animation (nodes s n) = SLIDE_OUT"
      using assms(1) by (simp_all add: toast_phase_def)
    note one = node_view_single [OF v mem assms(3)]
    have "node_timers n (pop_timer tm s) = []" using one(1) by (simp add: node_timers_pop)
    then have "node_view n (fire tm s) = []"
      using one(3)
      by (simp add: fire_def run_callback_def notification_remove_def node_view_def
            node_timers_def)
    moreover have "n \<notin> set (body (fire tm s))"
      using one(3) by (simp add: fire_def run_callback_def notification_remove_def)
    moreover have "animation (nodes (fire tm s) n) = SLIDE_OUT"
      using one(3) an by (simp add: fire_def run_callback_def notification_remove_def)
    moreover have "no_replacement (fire tm s)"
      using one(3) nrp
      by (simp add: fire_def run_callback_def notification_remove_def no_replacement_def)
    moreover have "n < next_node_id (fire tm s)" and "is_notification (fire tm s) n"
      using one(3) fresh
      by (simp_all add: fire_def run_callback_def notification_remove_def is_notification_def)
    ultimately show ?thesis using Leaving one(2) wf' by (simp add: toast_phase_def)
  next
    case Gone
    then have "node_timers n s = []" using assms(1) by (simp add: toast_phase_def node_view_def)
    then have False using mem assms(3) by (auto simp: node_timers_def filter_empty_conv)
    then show ?thesis ..
  qed
qed

lemma node_view_pending:
  assumes "node_view n s = (d, cb) # rest"
  shows "\<exists>u\<in>set (timers s). due u = d"
proof -
  obtain x xs where x: "node_timers n s = x # xs" "due x = d"
    using assms by (auto simp: node_view_def)
  then have "x \<in> set (node_timers n s)" by simp
  then have "x \<in> set (timers s)" by (simp add: node_timers_def)
  then show ?thesis using x(2) by blast
qed

lemma toast_phase_shown:
  assumes "wf_page s" and "no_replacement s"
  shows "toast_phase (clock s) (next_node_id s) Shown (showNotification msg ty s)"
proof -
  have "\<And>u. u \<in> set (timers s) \<Longrightarrow> callback_node (callback u) \<noteq> Some (next_node_id s)"
    using assms(1) by (fastforce simp: wf_page_def timer_ok_def)
  then have "node_timers (next_node_id s) s = []"
    by (auto simp: node_timers_def filter_empty_conv)
  then have "node_view (next_node_id s) (showNotification msg ty s)
             = [(clock s + 5000, NotificationTimeout (next_node_id s))]"
    by (simp add: node_view_def node_timers_def)
  moreover have "wf_page (showNotification msg ty s)" using assms(1) by (rule wf_showNotification)
  moreover have "no_replacement (showNotification msg ty s)"
    using assms(2) by (simp add: no_replacement_def)
  ultimately show ?thesis
    by (simp add: toast_phase_def nodes_showNotification is_notification_showNotification)
qed

lemma toast_timeline_from:
  assumes "toast_phase c n k0 s"
    and "k0 = Leaving \<longrightarrow> c + 5000 \<le> t" and "k0 = Gone \<longrightarrow> c + 5300 \<le> t"
  shows "toast_phase c n (toast_stage_at c t) (advance_to t s)"
proof -
  let ?P = "\<lambda>s'. \<exists>k. toast_phase c n k s'
                  \<and> (k = Leaving \<longrightarrow> c + 5000 \<le> t) \<and> (k = Gone \<longrightarrow> c + 5300 \<le> t)"
  show ?thesis
  proof (rule advance_to_rule [where P = ?P])
    show "?P s" using assms by blast
  next
    fix s' tm
    assume p: "?P s'" and nt: "next_timer s' = Some tm" and d: "due tm \<le> t"
    from p obtain k where k: "toast_phase c n k s'"
      "k = Leaving \<longrightarrow> c + 5000 \<le> t" "k = Gone \<longrightarrow> c + 5300 \<le> t" by blast
    show "?P (fire tm s')"
    proof (cases "callback_node (callback tm) = Some n")
      case False
      then have "toast_phase c n k (fire tm s')"
        using k(1) nt by (simp add: toast_phase_fire_foreign)
      then show ?thesis using k(2,3) by blast
    next
      case True
      then show ?thesis
        using toast_phase_fire_own [OF k(1) nt True] d by auto
    qed
  next
    fix s'
    assume p: "?P s'" and late: "\<forall>u\<in>set (timers s'). t < due u"
    from p obtain k where k: "toast_phase c n k s'"
      "k = Leaving \<longrightarrow> c + 5000 \<le> t" "k = Gone \<longrightarrow> c + 5300 \<le> t" by blast
    have w: "wf_page (s'\<lparr>clock := max (clock s') t\<rparr>)"
      using k(1) late by (simp add: toast_phase_def wf_set_clock)
    have st: "toast_stage_at c t = k"
    proof (cases k)
      case Shown
      then have "node_view n s' = (c + 5000, NotificationTimeout n) # []"
        using k(1) by (simp add: toast_phase_def)
      then have "\<exists>u\<in>set (timers s'). due u = c + 5000" by (rule node_view_pending)
      then have "t < c + 5000" using late by auto
      then show ?thesis using Shown by (simp add: toast_stage_at_def)
    next
      case Leaving
      then have "node_view n s' = (c + 5300, NotificationRemove n) # []"
        using k(1) by (simp add: toast_phase_def)
      then have "\<exists>u\<in>set (timers s'). due u = c + 5300" by (rule node_view_pending)
      then have "t < c + 5300" using late by auto
      then show ?thesis using Leaving k(2) by (simp add: toast_stage_at_def)
    next
      case Gone
      then show ?thesis using k(3) by (simp add: toast_stage_at_def)
    qed
    show "toast_phase c n (toast_stage_at c t) (s'\<lparr>clock := max (clock s') t\<rparr>)"
      using k(1) w st
      by (simp add: toast_phase_def node_view_def node_timers_def no_replacement_def
            is_notification_def)
  qed
qed

lemma click_foreign:
  assumes "\<not> dismisses n (Click tg)"
  shows "timers (click tg s) = timers s"
    and "n \<in> set (body (click tg s)) \<longleftrightarrow> n \<in> set (body s)"
    and "nodes (click tg s) = nodes s"
    and "next_node_id (click tg s) = next_node_id s"
  using assms
  by (cases tg; simp add: hamburger_click_def nav_link_click_def notification_close_def
        document_click_def)+

lemma scroll_foreign:
  assumes "wf_page s" and "n < next_node_id s" and "is_notification s n"
  shows "node_timers n (handle_event (Scroll y) s) = node_timers n s"
    and "n \<in> set (body (handle_event (Scroll y) s)) \<longleftrightarrow> n \<in> set (body s)"
    and "nodes (handle_event (Scroll y) s) n = nodes s n"
    and "no_replacement s \<Longrightarrow> no_replacement (handle_event (Scroll y) s)"
    and "n < next_node_id (handle_event (Scroll y) s)"
proof -
  let ?s0 = "header_scroll (s\<lparr>scrollY := y\<rparr>)"
  let ?s1 = "scroll_to_top_scroll ?s0"
  have w0: "wf_page ?s0"
    using assms(1) by (simp add: header_scroll_def wf_page_def timer_ok_def is_notification_def)
  have w1: "wf_page ?s1" using w0 by (rule wf_scroll_to_top_scroll)
  have f0: "body ?s0 = body s" "nodes ?s0 = nodes s" "next_node_id ?s0 = next_node_id s"
    "scrollToTopButton ?s0 = scrollToTopButton s"
    by (simp_all add: header_scroll_def)
  have nb: "scrollToTopButton s \<noteq> Some n"
    using assms(1,3) by (auto simp: wf_page_def)
  have b1: "n \<in> set (body ?s1) \<longleftrightarrow> n \<in> set (body s)"
    using assms(2) f0
    by (auto simp: scroll_to_top_scroll_def createScrollToTopButton_def Let_def
          split: option.splits)
  have n1: "nodes ?s1 n = nodes s n"
    using assms(2) nb f0
    by (auto simp: scroll_to_top_scroll_def createScrollToTopButton_def Let_def
          split: option.splits)
  have i1: "n < next_node_id ?s1"
    using assms(2) f0
    by (auto simp: scroll_to_top_scroll_def createScrollToTopButton_def Let_def
          split: option.splits)
  have t1: "timers ?s1 = timers s" by simp
  have "node_timers n (debouncedScroll ?s1) = node_timers n (clearTimeout (debounce_timeout ?s1) ?s1)"
    by (simp add: debouncedScroll_def Let_def node_timers_def)
  then show "node_timers n (handle_event (Scroll y) s) = node_timers n s"
    using node_timers_clearTimeout [OF w1, of n] t1 by (simp add: node_timers_def)
  show "n \<in> set (body (handle_event (Scroll y) s)) \<longleftrightarrow> n \<in> set (body s)"
    using b1 by (simp add: debouncedScroll_def Let_def)
  show "nodes (handle_event (Scroll y) s) n = nodes s n"
    using n1 by (simp add: debouncedScroll_def Let_def)
  show "n < next_node_id (handle_event (Scroll y) s)"
    using i1 by (simp add: debouncedScroll_def Let_def)
  show "no_replacement (handle_event (Scroll y) s)" if "no_replacement s"
  proof -
    have "no_replacement ?s1" using that by (simp add: no_replacement_def)
    then have "no_replacement (clearTimeout (debounce_timeout ?s1) ?s1)"
      by (rule no_replacement_clearTimeout)
    then show ?thesis by (simp add: debouncedScroll_def Let_def no_replacement_def)
  qed
qed


lemma toast_phase_event:
  assumes "toast_phase c n (toast_stage_at c (clock s)) s" and "\<not> dismisses n e"
  shows "toast_phase c n (toast_stage_at c (clock (handle_event e s))) (handle_event e s)"
proof -
  have w: "wf_page s" and f: "n < next_node_id s" and i: "is_notification s n"
    and nr: "no_replacement s"
    using assms(1) by (simp_all add: toast_phase_def)
  have w': "wf_page (handle_event e s)" using w by (rule wf_handle_event)
  show ?thesis
  proof (cases e)
    case (Click tg)
    then have d: "\<not> dismisses n (Click tg)" using assms(2) by simp
    show ?thesis
      using assms(1) w' Click click_foreign [OF d, of s]
      by (simp add: toast_phase_def node_view_def node_timers_def no_replacement_def
            is_notification_def)
  next
    case (Scroll y)
    have c: "clock (handle_event (Scroll y) s) = clock s" by simp
    note sf = scroll_foreign [OF w f i, of y]
    have "is_notification (handle_event (Scroll y) s) n"
      using i sf(3) by (simp add: is_notification_def)
    then show ?thesis
      using assms(1) w' Scroll sf nr c
      by (simp add: toast_phase_def node_view_def)
  next
    case (Input v)
    then show ?thesis
      using assms(1) w'
      by (simp add: toast_phase_def node_view_def node_timers_def no_replacement_def
            is_notification_def)
  next
    case Submit
    then show ?thesis using assms(2) by simp
  next
    case (Wait d)
    have "toast_phase c n (toast_stage_at c (clock s + d)) (advance_to (clock s + d) s)"
      using assms(1)
      by (rule toast_timeline_from) (auto simp: toast_stage_at_def split: if_splits)
    then show ?thesis using Wait by (simp add: clock_advance_to)
  qed
qed

lemma toast_phase_run:
  assumes "toast_phase c n (toast_stage_at c (clock s)) s" and "\<forall>e\<in>set es. \<not> dismisses n e"
  shows "toast_phase c n (toast_stage_at c (clock (run es s))) (run es s)"
  using assms
proof (induction es arbitrary: s)
  case Nil
  then show ?case by simp
next
  case (Cons e es)
  have "toast_phase c n (toast_stage_at c (clock (handle_event e s))) (handle_event e s)"
    using Cons.prems by (simp add: toast_phase_event)
  then show ?case using Cons.IH Cons.prems(2) by simp
qed

lemma toast_attached_run:
  assumes "wf_page s" and "no_replacement s" and "\<forall>e\<in>set es. \<not> dismisses (next_node_id s) e"
  shows "next_node_id s \<in> set (body (run es (showNotification msg ty s)))
           \<longleftrightarrow> elapsed es < 5300"
    and "animation (nodes (run es (showNotification msg ty s)) (next_node_id s))
           = (if elapsed es < 5000 then [] else SLIDE_OUT)"
proof -
  let ?s1 = "showNotification msg ty s"
  have "toast_phase (clock s) (next_node_id s) (toast_stage_at (clock s) (clock ?s1)) ?s1"
    using toast_phase_shown [OF assms(1,2), of msg ty] by (simp add: toast_stage_at_def)
  then have "toast_phase (clock s) (next_node_id s)
               (toast_stage_at (clock s) (clock (run es ?s1))) (run es ?s1)"
    using assms(3) by (rule toast_phase_run)
  then have p: "toast_phase (clock s) (next_node_id s)
               (toast_stage_at (clock s) (clock s + elapsed es)) (run es ?s1)"
    by (simp add: clock_run)
  show "next_node_id s \<in> set (body (run es ?s1)) \<longleftrightarrow> elapsed es < 5300"
    using p by (auto simp: toast_phase_def toast_stage_at_def split: if_splits)
  show "animation (nodes (run es ?s1) (next_node_id s))
           = (if elapsed es < 5000 then [] else SLIDE_OUT)"
    using p by (auto simp: toast_phase_def toast_stage_at_def split: if_splits)
qed

lemma initial_quiet: "no_replacement initial_page" "clock initial_page = 0"
  "next_node_id initial_page = 0" "client_id_value initial_page = []"
  by (simp_all add: no_replacement_def initial_page_def)

lemma submit_initial:
  "login_submit initial_page
   = showNotification (js ''Por favor, preencha todos os campos.'') (js ''error'') initial_page"
  by (simp add: login_submit_def initial_quiet)

text \<open>
  Claim C4, as stated, fails: five seconds after its creation the
  notification is still in the document. The five-second callback only
  starts the exit animation and registers a further timer of 300 ms.
\<close>

theorem notification_after_five_seconds_counterexample:
  "body (run [Submit] initial_page) = [0]
   \<and> 0 \<in> set (body (run [Submit, Wait 5000] initial_page))
   \<and> 0 \<in> set (body (run [Submit, Wait 5299] initial_page))"
proof -
  let ?m = "js ''Por favor, preencha todos os campos.''" and ?e = "js ''error''"
  have b: "body (showNotification ?m ?e initial_page) = [0]" by (simp add: initial_page_def)
  have a: "\<forall>e\<in>set [Wait 5000]. \<not> dismisses (next_node_id initial_page) e"
    "\<forall>e\<in>set [Wait 5299]. \<not> dismisses (next_node_id initial_page) e"
    by simp_all
  note at = toast_attached_run(1) [OF wf_initial initial_quiet(1), of _ ?m ?e]
  show ?thesis
    using b at [OF a(1)] at [OF a(2)] by (simp add: submit_initial initial_quiet)
qed

text \<open>
  Claim C4, amended. On a page with no login in progress, a notification
  created by \<^verbatim>\<open>showNotification\<close> that is neither closed by its button nor
  replaced after a later submit stays attached until 5300 ms have passed
  since its creation and is detached from then on, whatever else happens on
  the page: the five-second timer starts the exit animation, and the
  notification is removed 300 ms later.
\<close>

theorem notification_removed_after_animation:
  assumes "wf_page s" and "no_replacement s" and "\<forall>e\<in>set es. \<not> dismisses (next_node_id s) e"
  shows "(next_node_id s \<in> set (body (run es (showNotification msg ty s)))
            \<longleftrightarrow> elapsed es < 5300)
         \<and> animation (nodes (run es (showNotification msg ty s)) (next_node_id s))
             = (if elapsed es < 5000 then [] else js ''slideIn 0.3s ease-out reverse'')"
  using toast_attached_run [OF assms, of msg ty] by (simp add: SLIDE_OUT_def)

theorem notification_removed_after_animation_witness:
  "wf_page initial_page \<and> no_replacement initial_page
   \<and> \<not> dismisses 0 (Wait 5299) \<and> \<not> dismisses 0 (Scroll 500)
   \<and> 0 \<in> set (body (run [Wait 5299] (showNotification (js ''Processando login...'')
        (js ''info'') initial_page)))
   \<and> 0 \<notin> set (body (run [Wait 3000, Scroll 500, Wait 2300]
        (showNotification (js ''Processando login...'') (js ''info'') initial_page)))
   \<and> animation (nodes (run [Wait 4999] (showNotification (js ''Processando login...'')
        (js ''info'') initial_page)) 0) = []
   \<and> animation (nodes (run [Wait 5000] (showNotification (js ''Processando login...'')
        (js ''info'') initial_page)) 0) = js ''slideIn 0.3s ease-out reverse''"
proof -
  note th = notification_removed_after_animation [OF wf_initial initial_quiet(1),
      of _ "js ''Processando login...''" "js ''info''"]
  have a: "\<forall>e\<in>set [Wait 5299]. \<not> dismisses (next_node_id initial_page) e"
    "\<forall>e\<in>set [Wait 3000, Scroll 500, Wait 2300]. \<not> dismisses (next_node_id initial_page) e"
    "\<forall>e\<in>set [Wait 4999]. \<not> dismisses (next_node_id initial_page) e"
    "\<forall>e\<in>set [Wait 5000]. \<not> dismisses (next_node_id initial_page) e"
    by simp_all
  show ?thesis
    using wf_initial initial_quiet(1) th [OF a(1)] th [OF a(2)] th [OF a(3)] th [OF a(4)]
    by (simp add: initial_quiet)
qed


section \<open>The timers of the script\<close>





section \<open>The provisioning script\<close>

text \<open>
  The shell script that follows the client script in \<^verbatim>\<open>src/landing/script.js\<close>
  runs under \<^verbatim>\<open>set -euo pipefail\<close>. Its commands are named in the order of
  the script; what each of them does on the machine is reduced to its exit
  status, given by the environment. The variable assignments cannot fail,
  every variable used is assigned, and there is no pipeline.
\<close>

datatype command =
    Command_v_yum
  | Test_x_yum
  | Yum_update
  | Yum_install
  | Command_v_apt_get
  | Test_x_apt_get
  | Apt_get_update
  | Apt_get_install
  | Mkdir_app_dir
  | Chown_app_dir
  | Cat_app_py
  | Cat_requirements
  | Python_venv
  | Pip_upgrade
  | Pip_install_requirements
  | Cat_service_unit
  | Systemctl_daemon_reload
  | Systemctl_enable
  | Systemctl_start

type_synonym environment = "command \<Rightarrow> nat"

text \<open>
  \<open>executed\<close> lists the commands run so far; \<open>exit_status\<close> is the status
  with which the shell has exited, if it has.
\<close>

record shell =
  executed :: "command list"
  exit_status :: "nat option"

text \<open>
  A simple command under \<^verbatim>\<open>set -e\<close>: a status other than 0 makes the shell
  exit with it. The commands of an \<^verbatim>\<open>if\<close> condition, and a command
  substitution inside a word of such a command, are exempt: their status is
  only tested.
\<close>

definition simple :: "environment \<Rightarrow> shell \<Rightarrow> command \<Rightarrow> shell" where
  "simple env sh c =
     (case exit_status sh of
        Some st \<Rightarrow> sh
      | None \<Rightarrow> \<lparr>executed = executed sh @ [c],
                 exit_status = (if env c = 0 then None else Some (env c))\<rparr>)"

definition tested :: "environment \<Rightarrow> shell \<Rightarrow> command \<Rightarrow> shell" where
  "tested env sh c =
     (case exit_status sh of
        Some st \<Rightarrow> sh
      | None \<Rightarrow> \<lparr>executed = executed sh @ [c], exit_status = None\<rparr>)"

fun in_condition :: "command \<Rightarrow> bool" where
  "in_condition Command_v_yum = True"
| "in_condition Test_x_yum = True"
| "in_condition Command_v_apt_get = True"
| "in_condition Test_x_apt_get = True"
| "in_condition c = False"

definition install_deps :: "environment \<Rightarrow> shell \<Rightarrow> shell" where
  "install_deps env sh =
     (let sh1 = tested env (tested env sh Command_v_yum) Test_x_yum in
      if env Test_x_yum = 0 then simple env (simple env sh1 Yum_update) Yum_install
      else
        let sh2 = tested env (tested env sh1 Command_v_apt_get) Test_x_apt_get in
        if env Test_x_apt_get = 0 then simple env (simple env sh2 Apt_get_update) Apt_get_install
        else sh2)"

definition setup_commands :: "command list" where
  "setup_commands =
     [Mkdir_app_dir, Chown_app_dir, Cat_app_py, Cat_requirements, Python_venv, Pip_upgrade,
      Pip_install_requirements, Cat_service_unit, Systemctl_daemon_reload, Systemctl_enable,
      Systemctl_start]"

definition provision :: "environment \<Rightarrow> shell" where
  "provision env =
     foldl (simple env) (install_deps env \<lparr>executed = [], exit_status = None\<rparr>) setup_commands"

text \<open>
  The state of a shell under \<^verbatim>\<open>set -e\<close>: every command outside a condition
  that ran before the last one succeeded; if the shell is still running the
  last one succeeded too, and if it has exited, it exited with the status of
  the last command, which failed outside a condition.
\<close>

definition fail_fast :: "environment \<Rightarrow> shell \<Rightarrow> bool" where
  "fail_fast env sh \<longleftrightarrow>
     (\<forall>c\<in>set (butlast (executed sh)). \<not> in_condition c \<longrightarrow> env c = 0)
     \<and> (case exit_status sh of
          None \<Rightarrow> \<forall>c\<in>set (executed sh). \<not> in_condition c \<longrightarrow> env c = 0
        | Some st \<Rightarrow> executed sh \<noteq> [] \<and> \<not> in_condition (last (executed sh))
                     \<and> env (last (executed sh)) = st \<and> st \<noteq> 0)"

lemma fail_fast_simple:
  assumes "fail_fast env sh" and "\<not> in_condition c"
  shows "fail_fast env (simple env sh c)"
  using assms
  by (cases "exit_status sh") (auto simp: fail_fast_def simple_def butlast_append)

lemma fail_fast_tested:
  assumes "fail_fast env sh" and "in_condition c"
  shows "fail_fast env (tested env sh c)"
  using assms
  by (cases "exit_status sh") (auto simp: fail_fast_def tested_def butlast_append)

lemma fail_fast_foldl:
  assumes "fail_fast env sh" and "\<forall>c\<in>set cs. \<not> in_condition c"
  shows "fail_fast env (foldl (simple env) sh cs)"
  using assms by (induction cs arbitrary: sh) (simp_all add: fail_fast_simple)

lemma fail_fast_install_deps:
  assumes "fail_fast env sh"
  shows "fail_fast env (install_deps env sh)"
  using assms
  by (simp add: install_deps_def Let_def fail_fast_simple fail_fast_tested)

lemma fail_fast_provision: "fail_fast env (provision env)"
proof -
  have "fail_fast env \<lparr>executed = [], exit_status = None\<rparr>" by (simp add: fail_fast_def)
  then have "fail_fast env (install_deps env \<lparr>executed = [], exit_status = None\<rparr>)"
    by (rule fail_fast_install_deps)
  then show ?thesis
    unfolding provision_def by (rule fail_fast_foldl) (simp add: setup_commands_def)
qed


text \<open>No command is run twice: the script has no loop and no retry.\<close>

definition package_commands :: "command list" where
  "package_commands =
     [Command_v_yum, Test_x_yum, Yum_update, Yum_install, Command_v_apt_get, Test_x_apt_get,
      Apt_get_update, Apt_get_install]"

lemma executed_simple:
  "executed (simple env sh c) = (if exit_status sh = None then executed sh @ [c] else executed sh)"
  by (simp add: simple_def split: option.splits)

lemma executed_tested:
  "executed (tested env sh c) = (if exit_status sh = None then executed sh @ [c] else executed sh)"
  by (simp add: tested_def split: option.splits)

lemma exit_status_tested [simp]: "exit_status (tested env sh c) = exit_status sh"
  by (simp add: tested_def split: option.splits)

lemma once_foldl:
  assumes "distinct (executed sh)" and "distinct cs" and "set cs \<inter> set (executed sh) = {}"
  shows "distinct (executed (foldl (simple env) sh cs))"
  using assms
proof (induction cs arbitrary: sh)
  case Nil
  then show ?case by simp
next
  case (Cons c cs)
  have "distinct (executed (simple env sh c))"
    using Cons.prems by (simp add: executed_simple)
  moreover have "set cs \<inter> set (executed (simple env sh c)) = {}"
    using Cons.prems by (auto simp: executed_simple)
  ultimately show ?case using Cons.IH Cons.prems(2) by simp
qed

lemma once_install_deps:
  "distinct (executed (install_deps env \<lparr>executed = [], exit_status = None\<rparr>))
   \<and> set (executed (install_deps env \<lparr>executed = [], exit_status = None\<rparr>))
       \<subseteq> set package_commands"
  by (simp add: install_deps_def Let_def executed_simple executed_tested simple_def
        package_commands_def)

lemma once_provision: "distinct (executed (provision env))"
proof -
  let ?sh = "install_deps env \<lparr>executed = [], exit_status = None\<rparr>"
  have "set setup_commands \<inter> set package_commands = {}"
    by (simp add: setup_commands_def package_commands_def)
  then have "set setup_commands \<inter> set (executed ?sh) = {}"
    using once_install_deps [of env] by blast
  moreover have "distinct setup_commands" by (simp add: setup_commands_def)
  ultimately show ?thesis
    unfolding provision_def using once_install_deps [of env] by (simp add: once_foldl)
qed

lemma fail_fast_last:
  assumes "fail_fast env sh" and "c \<in> set (executed sh)" and "\<not> in_condition c" and "env c \<noteq> 0"
  shows "last (executed sh) = c \<and> exit_status sh = Some (env c)"
proof (cases "exit_status sh")
  case None
  then show ?thesis using assms by (auto simp: fail_fast_def)
next
  case (Some st)
  then have ne: "executed sh \<noteq> []" and st: "env (last (executed sh)) = st"
    using assms(1) by (simp_all add: fail_fast_def)
  have "c \<notin> set (butlast (executed sh))" using assms by (auto simp: fail_fast_def)
  moreover have "set (executed sh) = insert (last (executed sh)) (set (butlast (executed sh)))"
    using ne by (metis append_butlast_last_id list.simps(15) rotate1.simps(2) set_rotate1)
  ultimately have "c = last (executed sh)" using assms(2) by auto
  then show ?thesis using Some st by simp
qed

text \<open>A machine without \<^verbatim>\<open>yum\<close> on which everything else succeeds.\<close>

fun without_yum :: environment where
  "without_yum Command_v_yum = 1"
| "without_yum Test_x_yum = 1"
| "without_yum c = 0"

text \<open>A machine with \<^verbatim>\<open>yum\<close> on which installing the requirements fails.\<close>

fun pip_install_fails :: environment where
  "pip_install_fails Pip_install_requirements = 1"
| "pip_install_fails c = 0"

text \<open>
  Claim C8, as stated, fails: on a machine without \<^verbatim>\<open>yum\<close> the commands of
  the first \<^verbatim>\<open>if\<close> condition exit with status 1 and provisioning goes on
  to the \<^verbatim>\<open>elif\<close> branch and to the end.
\<close>

theorem failing_test_counterexample:
  "without_yum Command_v_yum = 1 \<and> without_yum Test_x_yum = 1
   \<and> executed (provision without_yum)
       = [Command_v_yum, Test_x_yum, Command_v_apt_get, Test_x_apt_get, Apt_get_update,
          Apt_get_install, Mkdir_app_dir, Chown_app_dir, Cat_app_py, Cat_requirements,
          Python_venv, Pip_upgrade, Pip_install_requirements, Cat_service_unit,
          Systemctl_daemon_reload, Systemctl_enable, Systemctl_start]
   \<and> exit_status (provision without_yum) = None"
  by (simp add: provision_def install_deps_def setup_commands_def simple_def tested_def)

text \<open>
  Claim C8, amended. A command outside the conditions of the \<^verbatim>\<open>if\<close>
  statement that exits with a status other than 0 is the last command that
  provisioning runs, and the script exits with that status: nothing is
  cleaned up, rolled back or retried, and no command is ever run twice. A
  failing command inside a condition only selects the branch.
\<close>

theorem errexit_outside_conditions:
  assumes "c \<in> set (executed (provision env))" and "\<not> in_condition c" and "env c \<noteq> 0"
  shows "last (executed (provision env)) = c \<and> exit_status (provision env) = Some (env c)
         \<and> distinct (executed (provision env))"
  using fail_fast_last [OF fail_fast_provision assms] once_provision by simp

theorem errexit_outside_conditions_witness:
  "Pip_install_requirements \<in> set (executed (provision pip_install_fails))
   \<and> \<not> in_condition Pip_install_requirements
   \<and> pip_install_fails Pip_install_requirements \<noteq> 0
   \<and> executed (provision pip_install_fails)
       = [Command_v_yum, Test_x_yum, Yum_update, Yum_install, Mkdir_app_dir, Chown_app_dir,
          Cat_app_py, Cat_requirements, Python_venv, Pip_upgrade, Pip_install_requirements]
   \<and> last (executed (provision pip_install_fails)) = Pip_install_requirements
   \<and> exit_status (provision pip_install_fails) = Some 1"
proof -
  have e: "executed (provision pip_install_fails)
       = [Command_v_yum, Test_x_yum, Yum_update, Yum_install, Mkdir_app_dir, Chown_app_dir,
          Cat_app_py, Cat_requirements, Python_venv, Pip_upgrade, Pip_install_requirements]"
    by (simp add: provision_def install_deps_def setup_commands_def simple_def tested_def)
  have m: "Pip_install_requirements \<in> set (executed (provision pip_install_fails))"
    by (simp add: e)
  have c: "\<not> in_condition Pip_install_requirements" by simp
  have f: "pip_install_fails Pip_install_requirements \<noteq> 0" by simp
  show ?thesis
    using e m errexit_outside_conditions [OF m c f] by simp
qed


end
